theory Spec2Isabelle
  imports Complex_Main "HOL-Library.Sublist"
begin

section \<open>Python strings\<close>

text \<open>
  A Python \<open>str\<close> is a sequence of Unicode code points and \<open>len\<close> counts code
  points, so a string is a list of code points, each a natural number.
\<close>

type_synonym pystr = "nat list"

text \<open>
  The code points for which \<open>str.isspace\<close> holds; \<open>str.strip()\<close> without an
  argument removes exactly these from both ends.
\<close>

definition is_space :: "nat \<Rightarrow> bool" where
  "is_space c \<longleftrightarrow>
     (9 \<le> c \<and> c \<le> 13) \<or> (28 \<le> c \<and> c \<le> 32) \<or> c = 133 \<or> c = 160 \<or> c = 5760 \<or>
     (8192 \<le> c \<and> c \<le> 8202) \<or> c = 8232 \<or> c = 8233 \<or> c = 8239 \<or> c = 8287 \<or>
     c = 12288"

definition strip :: "pystr \<Rightarrow> pystr" where
  "strip s = rev (dropWhile is_space (rev (dropWhile is_space s)))"

text \<open>\<open>sub in s\<close>: the substring test.\<close>

fun str_contains :: "pystr \<Rightarrow> pystr \<Rightarrow> bool" where
  "str_contains [] sub = (sub = [])"
| "str_contains (c # cs) sub = (prefix sub (c # cs) \<or> str_contains cs sub)"

text \<open>
  \<open>s.split(sep)\<close> for a non-empty separator: the text is scanned from the left, every
  occurrence found ends the current segment and the scan resumes behind it; any other
  character extends the current segment (\<open>extend_first\<close>). Both call
  sites pass a non-empty literal (Python raises ValueError on an empty separator).
\<close>

fun extend_first :: "nat \<Rightarrow> pystr list \<Rightarrow> pystr list" where
  "extend_first c [] = [[c]]"
| "extend_first c (r # rs) = (c # r) # rs"

fun str_split :: "pystr \<Rightarrow> pystr \<Rightarrow> pystr list" where
  "str_split [] sep = [[]]"
| "str_split (c # cs) sep =
     (if prefix sep (c # cs) then [] # str_split (drop (length sep - 1) cs) sep
      else extend_first c (str_split cs sep))"

text \<open>\<open>sep.join(xs)\<close>.\<close>

fun str_join :: "pystr \<Rightarrow> pystr list \<Rightarrow> pystr" where
  "str_join sep [] = []"
| "str_join sep [x] = x"
| "str_join sep (x # y # ys) = x @ sep @ str_join sep (y # ys)"

text \<open>\<open>range(0, stop, step)\<close> for a positive step, and the slice \<open>s[i:j]\<close>.\<close>

definition range_step :: "nat \<Rightarrow> nat \<Rightarrow> nat list" where
  "range_step stop step = map (\<lambda>k. k * step) [0..<(stop + step - 1) div step]"

definition slice :: "pystr \<Rightarrow> nat \<Rightarrow> nat \<Rightarrow> pystr" where
  "slice s i j = take (j - i) (drop i s)"

section \<open>The chunker\<close>

text \<open>The two separators: \<open>"\n\n---\n\n"\<close> and \<open>"\n\n"\<close>.\<close>

definition SEP_RULE :: pystr where
  "SEP_RULE = [10, 10, 45, 45, 45, 10, 10]"

definition SEP_PARA :: pystr where
  "SEP_PARA = [10, 10]"

definition chunk_size :: nat where
  "chunk_size = 1000"

text \<open>
  The delimiter cascade, written the same way in \<open>upload_data\<close> (api/upload.py) and in
  \<open>load_text_chunks\<close> (utils/upload_to_qdrant.py).
\<close>

definition split_text :: "pystr \<Rightarrow> pystr list" where
  "split_text text_data =
     (if str_contains text_data SEP_RULE then str_split text_data SEP_RULE
      else if str_contains text_data SEP_PARA then str_split text_data SEP_PARA
      else [slice text_data i (i + chunk_size). i \<leftarrow> range_step (length text_data) chunk_size])"

text \<open>
  \<open>[chunk.strip() for chunk in chunks if chunk.strip() and len(chunk.strip()) > 50]\<close>
\<close>

definition filter_chunks :: "pystr list \<Rightarrow> pystr list" where
  "filter_chunks chunks =
     [strip chunk. chunk \<leftarrow> chunks, strip chunk \<noteq> [] \<and> 50 < length (strip chunk)]"

definition chunker :: "pystr \<Rightarrow> pystr list" where
  "chunker text_data = filter_chunks (split_text text_data)"

section \<open>Requests and Python values\<close>

text \<open>String literals of the source, as code points.\<close>

definition ascii :: "string \<Rightarrow> pystr" where
  "ascii s = map of_char s"

text \<open>
  What \<open>request.get_json()\<close> returns: a JSON document as Python holds it. A dict is an
  association list in which a key occurs once.
\<close>

datatype json =
    JNull
  | JBool bool
  | JNum real
  | JStr pystr
  | JArr "json list"
  | JObj "(pystr \<times> json) list"

datatype exn =
    TypeError
  | AttributeError
  | KeyError
  | NameError string
  | BadRequest

text \<open>A request whose body cannot be read as JSON makes \<open>get_json\<close> raise.\<close>

datatype request = Unparsable | Body json

fun get_json :: "request \<Rightarrow> exn + json" where
  "get_json Unparsable = Inl BadRequest"
| "get_json (Body data) = Inr data"

text \<open>Truth value of a Python object (\<open>not data\<close>).\<close>

fun truthy :: "json \<Rightarrow> bool" where
  "truthy JNull = False"
| "truthy (JBool b) = b"
| "truthy (JNum x) = (x \<noteq> 0)"
| "truthy (JStr s) = (s \<noteq> [])"
| "truthy (JArr xs) = (xs \<noteq> [])"
| "truthy (JObj kvs) = (kvs \<noteq> [])"

text \<open>\<open>key in data\<close>, \<open>data[key]\<close>, \<open>data.get(key, dflt)\<close> and \<open>v.strip()\<close> for a
  string \<open>key\<close>, on whatever JSON value the client sent.\<close>

fun py_in :: "pystr \<Rightarrow> json \<Rightarrow> exn + bool" where
  "py_in key (JObj kvs) = Inr (map_of kvs key \<noteq> None)"
| "py_in key (JArr xs) = Inr (JStr key \<in> set xs)"
| "py_in key (JStr s) = Inr (str_contains s key)"
| "py_in key _ = Inl TypeError"

fun py_getitem :: "json \<Rightarrow> pystr \<Rightarrow> exn + json" where
  "py_getitem (JObj kvs) key = (case map_of kvs key of None \<Rightarrow> Inl KeyError | Some v \<Rightarrow> Inr v)"
| "py_getitem _ key = Inl TypeError"

fun py_get :: "json \<Rightarrow> pystr \<Rightarrow> json \<Rightarrow> exn + json" where
  "py_get (JObj kvs) key dflt = Inr (case map_of kvs key of None \<Rightarrow> dflt | Some v \<Rightarrow> v)"
| "py_get _ key dflt = Inl AttributeError"

fun py_strip :: "json \<Rightarrow> exn + pystr" where
  "py_strip (JStr s) = Inr (strip s)"
| "py_strip _ = Inl AttributeError"

section \<open>api/chat.py\<close>

type_synonym embedding = "real list"

text \<open>
  The services \<open>chat.py\<close> talks to, as they answer: \<open>None\<close> is a call that raises.
  \<open>index_present\<close> says that \<open>pinecone.Index(INDEX_NAME)\<close> succeeded at import (otherwise
  \<open>index = None\<close>). The texts are the \<open>metadata.text\<close> of the matches, in the order of
  the reply.
\<close>

record chat_world =
  index_present :: bool
  embedding_reply :: "pystr \<Rightarrow> embedding option"
  query_reply :: "embedding \<Rightarrow> nat \<Rightarrow> pystr list option"
  completion_reply :: "pystr \<Rightarrow> pystr \<Rightarrow> pystr option"

text \<open>The calls made to the services, in order.\<close>

datatype call =
    Embedding_create pystr
  | Index_query embedding nat
  | ChatCompletion_create pystr pystr

definition get_embedding :: "chat_world \<Rightarrow> pystr \<Rightarrow> call list \<Rightarrow> embedding option \<times> call list" where
  "get_embedding w text calls = (embedding_reply w text, calls @ [Embedding_create text])"

definition search_similar_chunks ::
  "chat_world \<Rightarrow> pystr \<Rightarrow> nat \<Rightarrow> call list \<Rightarrow> pystr list \<times> call list" where
  "search_similar_chunks w query top_k calls =
     (if \<not> index_present w then ([], calls)
      else
        (case get_embedding w query calls of
          (None, calls1) \<Rightarrow> ([], calls1)
        | (Some query_embedding, calls1) \<Rightarrow>
            if query_embedding = [] then ([], calls1)
            else
              (case query_reply w query_embedding top_k of
                None \<Rightarrow> ([], calls1 @ [Index_query query_embedding top_k])
              | Some texts \<Rightarrow> (texts, calls1 @ [Index_query query_embedding top_k]))))"

definition APOLOGY :: pystr where
  "APOLOGY = ascii
     ''I'm sorry, I encountered an error while processing your question. Please try again.''"

definition SYSTEM_MESSAGE :: pystr where
  "SYSTEM_MESSAGE = ascii
     ''You are a helpful assistant that answers questions based on provided context.''"

definition build_prompt :: "pystr \<Rightarrow> pystr \<Rightarrow> pystr" where
  "build_prompt context query =
     ascii ''You are a helpful assistant that answers questions based on the provided context.''
     @ [10] @ ascii ''        '' @ [10]
     @ ascii ''Context:'' @ [10] @ context @ [10, 10]
     @ ascii ''Question: '' @ query @ [10, 10]
     @ ascii ''Instructions:'' @ [10]
     @ ascii ''- Answer the question based on the provided context'' @ [10]
     @ ascii ''- If the context doesn't contain relevant information, say so politely'' @ [10]
     @ ascii ''- Be concise but informative'' @ [10]
     @ ascii ''- Maintain a friendly, professional tone'' @ [10, 10]
     @ ascii ''Answer:''"

definition generate_response ::
  "chat_world \<Rightarrow> pystr \<Rightarrow> pystr list \<Rightarrow> call list \<Rightarrow> pystr \<times> call list" where
  "generate_response w query context_chunks calls =
     (let context = str_join SEP_PARA (take 3 context_chunks);
          prompt = build_prompt context query;
          calls1 = calls @ [ChatCompletion_create SYSTEM_MESSAGE prompt]
      in case completion_reply w SYSTEM_MESSAGE prompt of
           None \<Rightarrow> (APOLOGY, calls1)
         | Some content \<Rightarrow> (strip content, calls1))"

text \<open>The JSON answers of \<open>/api/chat\<close>: an error with its status, or the response
  with \<open>sources_used\<close>.\<close>

datatype chat_response =
    Chat_Error string nat
  | Chat_Ok pystr nat

text \<open>The body of the \<open>try\<close> in \<open>chat\<close>; \<open>Inl\<close> is an exception reaching the handler.\<close>

definition chat_try :: "chat_world \<Rightarrow> request \<Rightarrow> exn + chat_response \<times> call list" where
  "chat_try w req =
     (case get_json req of
        Inl e \<Rightarrow> Inl e
      | Inr data \<Rightarrow>
          if \<not> truthy data then Inr (Chat_Error ''No message provided'' 400, [])
          else
            (case py_in (ascii ''message'') data of
              Inl e \<Rightarrow> Inl e
            | Inr present \<Rightarrow>
                if \<not> present then Inr (Chat_Error ''No message provided'' 400, [])
                else
                  (case py_getitem data (ascii ''message'') of
                    Inl e \<Rightarrow> Inl e
                  | Inr v \<Rightarrow>
                      (case py_strip v of
                        Inl e \<Rightarrow> Inl e
                      | Inr user_message \<Rightarrow>
                          if user_message = [] then Inr (Chat_Error ''Empty message'' 400, [])
                          else
                            (case search_similar_chunks w user_message 5 [] of
                              (context_chunks, calls1) \<Rightarrow>
                                (case generate_response w user_message context_chunks calls1 of
                                  (response, calls2) \<Rightarrow>
                                    Inr (Chat_Ok response (length context_chunks), calls2)))))))"

definition chat :: "chat_world \<Rightarrow> request \<Rightarrow> chat_response \<times> call list" where
  "chat w req =
     (case chat_try w req of
        Inl e \<Rightarrow> (Chat_Error ''Internal server error'' 500, [])
      | Inr r \<Rightarrow> r)"

subsection \<open>The health endpoint\<close>

text \<open>
  \<open>health\<close> reads the module globals \<open>client\<close> and \<open>COLLECTION_NAME\<close>. A global that
  the module never binds raises NameError when it is read, so the namespace of the module
  is part of the model: a map from the names bound at import to their values.
\<close>

datatype collection_reply = Get_collection_raises | Collection_info "nat option"

datatype pyobj =
    PyNone
  | PyStr string
  | PyPinecone
  | PyQdrant collection_reply
  | PyOther

fun obj_truthy :: "pyobj \<Rightarrow> bool" where
  "obj_truthy PyNone = False"
| "obj_truthy (PyStr s) = (s \<noteq> [])"
| "obj_truthy _ = True"

datatype vector_count = Count nat | Note string

record health_report =
  status :: string
  service :: string
  qdrant_status :: string
  collection :: pyobj
  vector_count :: vector_count

text \<open>
  The names \<open>api/chat.py\<close> binds at import: its imports, \<open>app\<close>, \<open>INDEX_NAME\<close>,
  \<open>index\<close> (the Pinecone index, or None) and its functions.
\<close>

definition chat_py_globals :: "string \<Rightarrow> bool \<Rightarrow> (string \<rightharpoonup> pyobj)" where
  "chat_py_globals index_name index_ok =
     map_of
       [(''Flask'', PyOther), (''request'', PyOther), (''jsonify'', PyOther),
        (''CORS'', PyOther), (''openai'', PyOther), (''pinecone'', PyOther),
        (''os'', PyOther), (''load_dotenv'', PyOther), (''tiktoken'', PyOther),
        (''app'', PyOther), (''INDEX_NAME'', PyStr index_name),
        (''index'', if index_ok then PyPinecone else PyNone),
        (''get_embedding'', PyOther), (''search_similar_chunks'', PyOther),
        (''generate_response'', PyOther), (''chat'', PyOther), (''health'', PyOther),
        (''handler'', PyOther)]"

text \<open>
  \<open>client.get_collection(COLLECTION_NAME)\<close> inside the \<open>try\<close>; any exception there,
  a NameError too, is caught and reported in \<open>vector_count\<close>.
\<close>

definition health_vector_count :: "(string \<rightharpoonup> pyobj) \<Rightarrow> pyobj \<Rightarrow> vector_count" where
  "health_vector_count globals client =
     (if obj_truthy client then
        (case globals ''COLLECTION_NAME'' of
           None \<Rightarrow> Note ''error''
         | Some name \<Rightarrow>
             (case client of
                PyQdrant (Collection_info (Some n)) \<Rightarrow> Count n
              | PyQdrant (Collection_info None) \<Rightarrow> Note ''unknown''
              | _ \<Rightarrow> Note ''error''))
      else Note ''no connection'')"

definition health :: "(string \<rightharpoonup> pyobj) \<Rightarrow> exn + health_report" where
  "health globals =
     (case globals ''client'' of
        None \<Rightarrow> Inl (NameError ''client'')
      | Some client \<Rightarrow>
          (let qdrant_status = (if obj_truthy client then ''connected'' else ''disconnected'');
               count = health_vector_count globals client
           in case globals ''COLLECTION_NAME'' of
                None \<Rightarrow> Inl (NameError ''COLLECTION_NAME'')
              | Some name \<Rightarrow>
                  Inr \<lparr>status = ''healthy'', service = ''RAG Chatbot API'',
                       qdrant_status = qdrant_status, collection = name,
                       vector_count = count\<rparr>))"

section \<open>Ingestion: api/upload.py and utils/upload_to_qdrant.py\<close>

type_synonym uuid = nat

record point =
  point_id :: uuid
  vector :: embedding
  payload_text :: pystr
  payload_chunk_id :: nat
  payload_source :: string

text \<open>
  The services of an ingestion run. The replies are given per call: \<open>embed_reply w n\<close>
  is what the \<open>n\<close>-th call of \<open>openai.Embedding.create\<close> of the process answers
  (\<open>None\<close>: it raises, or the reply has no embedding), \<open>upsert_reply w n\<close> whether the
  \<open>n\<close>-th \<open>client.upsert\<close> succeeds, \<open>uuid_source w n\<close> the value of the \<open>n\<close>-th
  \<open>uuid.uuid4()\<close>. The counters and \<open>upsert_log\<close> (the batches passed to
  \<open>client.upsert\<close>, oldest first) are the state.
\<close>

record world =
  admin_password :: pystr
  collection_name :: string
  client_present :: bool
  store_reachable :: bool
  create_succeeds :: bool
  get_collection_succeeds :: bool
  collections :: "string list"
  embed_reply :: "nat \<Rightarrow> pystr \<Rightarrow> embedding option"
  upsert_reply :: "nat \<Rightarrow> point list \<Rightarrow> bool"
  uuid_source :: "nat \<Rightarrow> uuid"
  embed_calls :: nat
  uuid_calls :: nat
  upsert_log :: "point list list"

definition embed :: "pystr \<Rightarrow> world \<Rightarrow> embedding option \<times> world" where
  "embed text w = (embed_reply w (embed_calls w) text, w\<lparr>embed_calls := Suc (embed_calls w)\<rparr>)"

definition uuid4 :: "world \<Rightarrow> uuid \<times> world" where
  "uuid4 w = (uuid_source w (uuid_calls w), w\<lparr>uuid_calls := Suc (uuid_calls w)\<rparr>)"

definition client_upsert :: "point list \<Rightarrow> world \<Rightarrow> bool \<times> world" where
  "client_upsert points w =
     (upsert_reply w (length (upsert_log w)) points, w\<lparr>upsert_log := upsert_log w @ [points]\<rparr>)"

definition enumerate_from0 :: "'a list \<Rightarrow> (nat \<times> 'a) list" where
  "enumerate_from0 xs = zip [0..<length xs] xs"

subsection \<open>api/upload.py\<close>

text \<open>
  \<open>create_collection\<close> of \<open>api/upload.py\<close>: the success flag and the message; with
  \<open>client = None\<close> the first call raises inside the \<open>try\<close>.
\<close>

definition create_collection :: "world \<Rightarrow> bool \<times> string \<times> world" where
  "create_collection w =
     (if \<not> client_present w \<or> \<not> store_reachable w then (False, ''Error creating collection'', w)
      else if collection_name w \<notin> set (collections w) then
        (if create_succeeds w then
           (True, ''Collection created successfully!'',
            w\<lparr>collections := collections w @ [collection_name w]\<rparr>)
         else (False, ''Error creating collection'', w))
      else (True, ''Collection already exists.'', w))"

text \<open>
  The loop of \<open>upload_data\<close> over \<open>enumerate(chunks)\<close>, with its variables \<open>points\<close>
  and \<open>successful_uploads\<close>. When \<open>client.upsert\<close> raises, the handler only prints.
\<close>

fun upload_loop :: "(nat \<times> pystr) list \<Rightarrow> point list \<Rightarrow> nat \<Rightarrow> world \<Rightarrow> point list \<times> nat \<times> world" where
  "upload_loop [] points successful_uploads w = (points, successful_uploads, w)"
| "upload_loop ((i, chunk) # rest) points successful_uploads w =
     (case embed chunk w of
        (None, w1) \<Rightarrow> upload_loop rest points successful_uploads w1
      | (Some embedding, w1) \<Rightarrow>
          (case uuid4 w1 of
            (uid, w2) \<Rightarrow>
              (let point = \<lparr>point_id = uid, vector = embedding, payload_text = chunk,
                            payload_chunk_id = i, payload_source = ''web-upload''\<rparr>;
                   points1 = points @ [point]
               in if 50 \<le> length points1 then
                    (case client_upsert points1 w2 of
                       (True, w3) \<Rightarrow>
                         upload_loop rest [] (successful_uploads + length points1) w3
                     | (False, w3) \<Rightarrow> upload_loop rest points1 successful_uploads w3)
                  else upload_loop rest points1 successful_uploads w2)))"

text \<open>The loop and the upload of the remaining points; the result is
  \<open>successful_uploads\<close>.\<close>

definition upload_points :: "pystr list \<Rightarrow> world \<Rightarrow> nat \<times> world" where
  "upload_points chunks w =
     (case upload_loop (enumerate_from0 chunks) [] 0 w of
        (points, successful_uploads, w1) \<Rightarrow>
          if points \<noteq> [] then
            (case client_upsert points w1 of
               (True, w2) \<Rightarrow> (successful_uploads + length points, w2)
             | (False, w2) \<Rightarrow> (successful_uploads, w2))
          else (successful_uploads, w1))"

text \<open>The JSON answers of \<open>/api/upload/data\<close>: an error with its status, or
  \<open>total_chunks\<close> and \<open>uploaded_chunks\<close>.\<close>

datatype upload_response =
    Upload_Error string nat
  | Upload_Success nat nat

text \<open>
  The body of the \<open>try\<close> in \<open>upload_data\<close>. A \<open>text_data\<close> that is true but not a
  string raises in the chunking code: \<open>in\<close> raises TypeError on a number or a bool, and
  a list or dict has no \<open>split\<close>, respectively its slices have no \<open>strip\<close>.
\<close>

definition upload_data_try :: "world \<Rightarrow> request \<Rightarrow> (exn + upload_response) \<times> world" where
  "upload_data_try w req =
     (case get_json req of
        Inl e \<Rightarrow> (Inl e, w)
      | Inr data \<Rightarrow>
          if \<not> truthy data then (Inr (Upload_Error ''Invalid password'' 401), w)
          else
            (case py_get data (ascii ''password'') JNull of
              Inl e \<Rightarrow> (Inl e, w)
            | Inr password \<Rightarrow>
                if password \<noteq> JStr (admin_password w)
                then (Inr (Upload_Error ''Invalid password'' 401), w)
                else
                  (case py_get data (ascii ''text_data'') (JStr []) of
                    Inl e \<Rightarrow> (Inl e, w)
                  | Inr text_data \<Rightarrow>
                      if \<not> truthy text_data
                      then (Inr (Upload_Error ''No text data provided'' 400), w)
                      else
                        (case create_collection w of
                          (success, message, w1) \<Rightarrow>
                            if \<not> success then (Inr (Upload_Error message 500), w1)
                            else
                              (case text_data of
                                JStr s \<Rightarrow>
                                  (let chunks = chunker s
                                   in if chunks = []
                                      then (Inr (Upload_Error ''No valid chunks found'' 400), w1)
                                      else
                                        (case upload_points chunks w1 of
                                          (successful_uploads, w2) \<Rightarrow>
                                            (Inr (Upload_Success (length chunks) successful_uploads),
                                             w2)))
                              | JNum x \<Rightarrow> (Inl TypeError, w1)
                              | JBool b \<Rightarrow> (Inl TypeError, w1)
                              | _ \<Rightarrow> (Inl AttributeError, w1))))))"

definition upload_data :: "world \<Rightarrow> request \<Rightarrow> upload_response \<times> world" where
  "upload_data w req =
     (case upload_data_try w req of
        (Inl e, w1) \<Rightarrow> (Upload_Error ''Upload failed'' 500, w1)
      | (Inr r, w1) \<Rightarrow> (r, w1))"

subsection \<open>utils/upload_to_qdrant.py\<close>

text \<open>
  \<open>upload_chunks_to_qdrant\<close>: the same loop with \<open>batch_size\<close> as a parameter; here
  the handler of a failed upsert also resets \<open>points\<close>.
\<close>

fun cli_upload_loop :: "nat \<Rightarrow> (nat \<times> pystr) list \<Rightarrow> point list \<Rightarrow> world \<Rightarrow> point list \<times> world" where
  "cli_upload_loop batch_size [] points w = (points, w)"
| "cli_upload_loop batch_size ((i, chunk) # rest) points w =
     (case embed chunk w of
        (None, w1) \<Rightarrow> cli_upload_loop batch_size rest points w1
      | (Some embedding, w1) \<Rightarrow>
          (case uuid4 w1 of
            (uid, w2) \<Rightarrow>
              (let point = \<lparr>point_id = uid, vector = embedding, payload_text = chunk,
                            payload_chunk_id = i, payload_source = ''mite-website''\<rparr>;
                   points1 = points @ [point]
               in if batch_size \<le> length points1 then
                    (case client_upsert points1 w2 of
                       (ok, w3) \<Rightarrow> cli_upload_loop batch_size rest [] w3)
                  else cli_upload_loop batch_size rest points1 w2)))"

definition upload_chunks_to_qdrant :: "pystr list \<Rightarrow> nat \<Rightarrow> world \<Rightarrow> world" where
  "upload_chunks_to_qdrant chunks batch_size w =
     (case cli_upload_loop batch_size (enumerate_from0 chunks) [] w of
        (points, w1) \<Rightarrow> if points \<noteq> [] then snd (client_upsert points w1) else w1)"

text \<open>
  The files the script reads: whether a path exists, the text of a file that can be read
  (\<open>None\<close>: \<open>open\<close> or \<open>read\<close> raises) and what \<open>json.load\<close> makes of it
  (\<open>None\<close>: it raises).
\<close>

record files =
  path_exists :: "string \<Rightarrow> bool"
  read_text :: "string \<Rightarrow> pystr option"
  load_json :: "string \<Rightarrow> json option"

text \<open>
  The chunks of a JSON document: the items of a list, an item that is not a string as
  \<open>str(item)\<close>; the string values of a dict; nothing for any other document.
  \<open>str_of\<close> is Python's \<open>str\<close> on a value that is not a string.
\<close>

fun json_chunks :: "(json \<Rightarrow> pystr) \<Rightarrow> json \<Rightarrow> pystr list" where
  "json_chunks str_of (JArr items) =
     map (\<lambda>item. case item of JStr s \<Rightarrow> s | _ \<Rightarrow> str_of item) items"
| "json_chunks str_of (JObj kvs) =
     concat (map (\<lambda>(key, v). case v of JStr s \<Rightarrow> [s] | _ \<Rightarrow> []) kvs)"
| "json_chunks str_of _ = []"

text \<open>
  \<open>load_text_chunks\<close>: a \<open>.txt\<close> file goes through the delimiter cascade, a
  \<open>.json\<close> file gives its items; a file that cannot be read, and any other path,
  leaves \<open>chunks\<close> empty. The filter line is applied in every case.
\<close>

definition load_text_chunks :: "(json \<Rightarrow> pystr) \<Rightarrow> files \<Rightarrow> string \<Rightarrow> pystr list" where
  "load_text_chunks str_of fs file_path =
     filter_chunks
       (if suffix ''.txt'' file_path then
          (case read_text fs file_path of None \<Rightarrow> [] | Some content \<Rightarrow> split_text content)
        else if suffix ''.json'' file_path then
          (case load_json fs file_path of None \<Rightarrow> [] | Some data \<Rightarrow> json_chunks str_of data)
        else [])"

definition chunk_files :: "string list" where
  "chunk_files = [''../Client/mite_website_chunks.txt'', ''../Client/mite_website_full_content.txt'']"

text \<open>\<open>create_collection\<close> of the script: it returns only the flag.\<close>

definition cli_create_collection :: "world \<Rightarrow> bool \<times> world" where
  "cli_create_collection w =
     (if \<not> store_reachable w then (False, w)
      else if collection_name w \<notin> set (collections w) then
        (if create_succeeds w then (True, w\<lparr>collections := collections w @ [collection_name w]\<rparr>)
         else (False, w))
      else (True, w))"

text \<open>
  \<open>list(set(xs))\<close>: the distinct elements of \<open>xs\<close>, each once, in the order in which
  the set is iterated. That order is the hash order of the run, so it is a parameter:
  \<open>pick\<close> chooses, from the elements not yet listed, the position of the next one.
\<close>

fun list_in_order :: "(pystr list \<Rightarrow> nat) \<Rightarrow> nat \<Rightarrow> pystr list \<Rightarrow> pystr list" where
  "list_in_order pick 0 ys = []"
| "list_in_order pick (Suc n) ys =
     (if ys = [] then []
      else (let k = pick ys mod length ys
            in ys ! k # list_in_order pick n (take k ys @ drop (Suc k) ys)))"

definition list_of_set :: "(pystr list \<Rightarrow> nat) \<Rightarrow> pystr list \<Rightarrow> pystr list" where
  "list_of_set pick xs = list_in_order pick (length (remdups xs)) (remdups xs)"

text \<open>
  \<open>main\<close>. After the upload the script reads the collection and, if that succeeds,
  embeds a test query; both only print.
\<close>

definition main ::
  "(pystr list \<Rightarrow> nat) \<Rightarrow> (json \<Rightarrow> pystr) \<Rightarrow> files \<Rightarrow> world \<Rightarrow> world" where
  "main pick str_of fs w =
     (case cli_create_collection w of
        (created, w1) \<Rightarrow>
          if \<not> created then w1
          else
            (let all_chunks =
                   concat (map (\<lambda>file_path.
                     if path_exists fs file_path then load_text_chunks str_of fs file_path
                     else [])
                     chunk_files)
             in if all_chunks = [] then w1
                else
                  (let w2 = upload_chunks_to_qdrant (list_of_set pick all_chunks) 50 w1
                   in if get_collection_succeeds w2
                      then snd (embed (ascii ''What is MITE?'') w2)
                      else w2)))"

subsection \<open>What a run adds\<close>

text \<open>
  The batches a run passed to \<open>client.upsert\<close>, and the relation between the world
  before and after it: the uuid source is the same, its counter has not gone back, and the
  log has only grown.
\<close>

definition new_batches :: "world \<Rightarrow> world \<Rightarrow> point list list" where
  "new_batches w w' = drop (length (upsert_log w)) (upsert_log w')"

definition extends :: "world \<Rightarrow> world \<Rightarrow> bool" where
  "extends w w' \<longleftrightarrow>
     uuid_source w' = uuid_source w \<and> uuid_calls w \<le> uuid_calls w' \<and>
     prefix (upsert_log w) (upsert_log w')"

text \<open>
  What the point ids are meant to be, to be compared with what the two loops send. Both
  loops call \<open>get_embedding\<close> once per chunk, so the chunk at position \<open>n\<close> of a run
  gets the \<open>n\<close>-th embedding call from its start; \<open>embedded\<close> lists the chunks whose
  call succeeds, with their ordinal and embedding. \<open>run_points\<close> gives the \<open>j\<close>-th of
  them the \<open>j\<close>-th value \<open>uuid.uuid4()\<close> returns from the start of the run as its id.
\<close>

fun embedded ::
  "(nat \<Rightarrow> pystr \<Rightarrow> embedding option) \<Rightarrow> nat \<Rightarrow> (nat \<times> pystr) list \<Rightarrow>
   (nat \<times> pystr \<times> embedding) list" where
  "embedded reply n [] = []"
| "embedded reply n ((i, chunk) # rest) =
     (case reply n chunk of
        None \<Rightarrow> embedded reply (Suc n) rest
      | Some embedding \<Rightarrow> (i, chunk, embedding) # embedded reply (Suc n) rest)"

definition embedded_chunks :: "pystr list \<Rightarrow> world \<Rightarrow> (nat \<times> pystr \<times> embedding) list" where
  "embedded_chunks chunks w = embedded (embed_reply w) (embed_calls w) (enumerate_from0 chunks)"

definition points_from ::
  "string \<Rightarrow> (nat \<Rightarrow> uuid) \<Rightarrow> nat \<Rightarrow> (nat \<times> pystr \<times> embedding) list \<Rightarrow> point list" where
  "points_from src source m es =
     map (\<lambda>(k, i, chunk, embedding).
            \<lparr>point_id = source k, vector = embedding, payload_text = chunk,
             payload_chunk_id = i, payload_source = src\<rparr>)
       (zip [m..<m + length es] es)"

definition run_points :: "string \<Rightarrow> pystr list \<Rightarrow> world \<Rightarrow> point list" where
  "run_points src chunks w =
     points_from src (uuid_source w) (uuid_calls w) (embedded_chunks chunks w)"

section \<open>Concrete runs\<close>

text \<open>
  Services and requests used to evaluate the endpoints: an embedding service that fails,
  one where the completion fails too, and an index that returns five matches.
\<close>

definition failing_embedding_world :: chat_world where
  "failing_embedding_world =
     \<lparr>index_present = True, embedding_reply = (\<lambda>text. None),
      query_reply = (\<lambda>v k. None), completion_reply = (\<lambda>sys prompt. Some [32, 79, 75, 10])\<rparr>"

definition five_results_world :: chat_world where
  "five_results_world =
     \<lparr>index_present = True, embedding_reply = (\<lambda>text. Some [1]),
      query_reply = (\<lambda>v k. Some [[97], [98], [99], [100], [101]]),
      completion_reply = (\<lambda>sys prompt. Some [79, 75])\<rparr>"

definition hi_request :: request where
  "hi_request = Body (JObj [(ascii ''message'', JStr [104, 105])])"

definition silent_world :: chat_world where
  "silent_world = failing_embedding_world\<lparr>completion_reply := (\<lambda>sys prompt. None)\<rparr>"

text \<open>
  For ingestion: a chunk of 51 letters; a store whose first upsert fails and whose later
  ones succeed, and one where every upsert succeeds; the point the web upload builds for
  the \<open>k\<close>-th chunk there; a text of 51 such paragraphs and one of two; and the request
  that uploads a text.
\<close>

definition para51 :: pystr where
  "para51 = replicate 51 97"

definition flaky_world :: world where
  "flaky_world =
     \<lparr>admin_password = ascii ''admin123'', collection_name = ''mite-website'',
      client_present = True, store_reachable = True, create_succeeds = True,
      get_collection_succeeds = True, collections = [''mite-website''],
      embed_reply = (\<lambda>n text. Some [0]), upsert_reply = (\<lambda>n points. n \<noteq> 0),
      uuid_source = (\<lambda>n. n), embed_calls = 0, uuid_calls = 0, upsert_log = []\<rparr>"

definition web_point :: "nat \<Rightarrow> point" where
  "web_point k = \<lparr>point_id = k, vector = [0], payload_text = para51,
                  payload_chunk_id = k, payload_source = ''web-upload''\<rparr>"

definition text51 :: pystr where
  "text51 = concat (replicate 50 (para51 @ SEP_PARA)) @ para51"

definition twice_text :: pystr where
  "twice_text = para51 @ SEP_PARA @ para51"

definition steady_world :: world where
  "steady_world = flaky_world\<lparr>upsert_reply := (\<lambda>n points. True)\<rparr>"

definition upload_request :: "pystr \<Rightarrow> request" where
  "upload_request text_data =
     Body (JObj [(ascii ''password'', JStr (ascii ''admin123'')),
                 (ascii ''text_data'', JStr text_data)])"

section \<open>Properties of the string operations\<close>

lemma replicate_numeral: "replicate (numeral k) x = x # replicate (pred_numeral k) x"
  by (simp add: numeral_eq_Suc)

lemma extend_first_ne: "extend_first c rs \<noteq> []"
  by (cases rs) auto

lemma str_split_ne: "str_split s sep \<noteq> []"
  by (induction s sep rule: str_split.induct) (auto simp: extend_first_ne)

lemma str_join_extend_first:
  "rs \<noteq> [] \<Longrightarrow> str_join sep (extend_first c rs) = c # str_join sep rs"
proof -
  assume "rs \<noteq> []"
  then obtain r rs' where rs: "rs = r # rs'" by (cases rs) auto
  show ?thesis unfolding rs by (cases rs') simp_all
qed

lemma set_extend_first:
  "rs \<noteq> [] \<Longrightarrow> set (extend_first c rs) = insert (c # hd rs) (set (tl rs))"
  by (cases rs) auto

lemma prefix_drop_eq: "prefix sep s \<Longrightarrow> sep @ drop (length sep) s = s"
  by (auto simp: prefix_def)

lemma str_join_split: "sep \<noteq> [] \<Longrightarrow> str_join sep (str_split s sep) = s"
proof (induction s sep rule: str_split.induct)
  case (1 sep)
  then show ?case by simp
next
  case (2 c cs sep)
  show ?case
  proof (cases "prefix sep (c # cs)")
    case True
    from 2(3) obtain n where n: "length sep = Suc n" by (cases sep) auto
    have "sep @ drop (length sep) (c # cs) = c # cs" using True by (rule prefix_drop_eq)
    then have e: "sep @ drop n cs = c # cs" using n by simp
    obtain r rs where rs: "str_split (drop n cs) sep = r # rs"
      using str_split_ne[of "drop n cs" sep] by (cases "str_split (drop n cs) sep") auto
    have "str_join sep (str_split (drop n cs) sep) = drop n cs"
      using 2(1)[OF True 2(3)] n by simp
    then show ?thesis using True n rs e by simp
  next
    case False
    then show ?thesis using 2(2)[OF False 2(3)] str_split_ne[of cs sep]
      by (simp add: str_join_extend_first)
  qed
qed

lemma hd_split_prefix: "sep \<noteq> [] \<Longrightarrow> prefix (hd (str_split s sep)) s"
proof -
  assume a: "sep \<noteq> []"
  obtain r rs where rs: "str_split s sep = r # rs"
    using str_split_ne[of s sep] by (cases "str_split s sep") auto
  have "str_join sep (r # rs) = s" using str_join_split[OF a, of s] rs by simp
  then have "prefix r s" by (cases rs) (auto simp: prefix_def)
  then show ?thesis using rs by simp
qed

lemma str_contains_Nil: "str_contains s [] "
  by (cases s) auto

lemma str_contains_iff: "str_contains s sub \<longleftrightarrow> (\<exists>xs ys. s = xs @ sub @ ys)"
proof (induction s)
  case Nil
  then show ?case by auto
next
  case (Cons c cs)
  show ?case
  proof
    assume "str_contains (c # cs) sub"
    then consider "prefix sub (c # cs)" | "str_contains cs sub" by auto
    then show "\<exists>xs ys. c # cs = xs @ sub @ ys"
    proof cases
      case 1
      then obtain ys where "c # cs = sub @ ys" by (auto simp: prefix_def)
      then have "c # cs = [] @ sub @ ys" by simp
      then show ?thesis by blast
    next
      case 2
      then obtain xs ys where "cs = xs @ sub @ ys" using Cons.IH by auto
      then have "c # cs = (c # xs) @ sub @ ys" by simp
      then show ?thesis by blast
    qed
  next
    assume "\<exists>xs ys. c # cs = xs @ sub @ ys"
    then obtain xs ys where e: "c # cs = xs @ sub @ ys" by auto
    show "str_contains (c # cs) sub"
    proof (cases xs)
      case Nil
      then have "prefix sub (c # cs)" using e by (auto simp: prefix_def)
      then show ?thesis by simp
    next
      case (Cons x xs')
      then have "cs = xs' @ sub @ ys" using e by simp
      then have "str_contains cs sub" using Cons.IH by blast
      then show ?thesis by simp
    qed
  qed
qed

lemma split_segments_free: "sep \<noteq> [] \<Longrightarrow> s' \<in> set (str_split s sep) \<Longrightarrow> \<not> str_contains s' sep"
proof (induction s sep arbitrary: s' rule: str_split.induct)
  case (1 sep)
  then show ?case by simp
next
  case (2 c cs sep)
  show ?case
  proof (cases "prefix sep (c # cs)")
    case True
    then have "s' = [] \<or> s' \<in> set (str_split (drop (length sep - 1) cs) sep)"
      using 2(4) by simp
    then show ?thesis using 2(1)[OF True 2(3)] 2(3) by auto
  next
    case False
    let ?rs = "str_split cs sep"
    have ne: "?rs \<noteq> []" by (rule str_split_ne)
    from 2(4) False have "s' = c # hd ?rs \<or> s' \<in> set (tl ?rs)"
      by (simp add: set_extend_first [OF ne])
    then show ?thesis
    proof
      assume s': "s' = c # hd ?rs"
      have "hd ?rs \<in> set ?rs" using ne by simp
      then have nc: "\<not> str_contains (hd ?rs) sep" using 2(2)[OF False 2(3)] by blast
      have "prefix (c # hd ?rs) (c # cs)" using hd_split_prefix[OF 2(3), of cs] by simp
      then have "\<not> prefix sep (c # hd ?rs)" using False
        by (meson prefix_order.trans)
      then show ?thesis using nc s' by simp
    next
      assume "s' \<in> set (tl ?rs)"
      then have "s' \<in> set ?rs" using ne by (meson list.set_sel(2))
      then show ?thesis using 2(2)[OF False 2(3)] by blast
    qed
  qed
qed


lemma split_at_least_two:
  assumes "sep \<noteq> []" "str_contains s sep"
  shows "1 < length (str_split s sep)"
proof (rule ccontr)
  assume "\<not> 1 < length (str_split s sep)"
  then obtain r where r: "str_split s sep = [r]"
    using str_split_ne[of s sep] by (cases "str_split s sep") auto
  have "str_join sep (str_split s sep) = s" using assms(1) by (rule str_join_split)
  then have "r = s" using r by simp
  moreover have "\<not> str_contains r sep"
    using split_segments_free[OF assms(1), of r s] r by simp
  ultimately show False using assms(2) by simp
qed

lemma set_segment_join: "x \<in> set xs \<Longrightarrow> set x \<subseteq> set (str_join sep xs)"
  by (induction sep xs rule: str_join.induct) auto

lemma set_split_subset: "sep \<noteq> [] \<Longrightarrow> x \<in> set (str_split s sep) \<Longrightarrow> set x \<subseteq> set s"
  using set_segment_join[of x "str_split s sep" sep] str_join_split[of sep s] by simp

lemma filter_chunks_eq:
  "filter_chunks chunks = map strip (filter (\<lambda>chunk. 50 < length (strip chunk)) chunks)"
  unfolding filter_chunks_def by (induction chunks) auto

lemma strip_all_space: "\<forall>c\<in>set s. is_space c \<Longrightarrow> strip s = []"
proof -
  assume "\<forall>c\<in>set s. is_space c"
  then have "dropWhile is_space s = []" by (simp add: dropWhile_eq_Nil_conv)
  then show ?thesis unfolding strip_def by (simp only: rev.simps dropWhile.simps)
qed

lemma strip_idem: "strip (strip s) = strip s"
proof -
  define u where "u = dropWhile is_space s"
  define w where "w = dropWhile is_space (rev u)"
  have s: "strip s = rev w" by (simp add: strip_def u_def w_def)
  have "dropWhile is_space (rev w) = rev w"
  proof (cases "w = []")
    case True
    then show ?thesis by simp
  next
    case False
    have ru: "rev u = takeWhile is_space (rev u) @ w" by (simp add: w_def)
    then have une: "u \<noteq> []" using False by auto
    have "last w = last (rev u)" using ru False by (metis last_appendR)
    also have "\<dots> = hd u" using une by (simp add: last_rev)
    finally have "\<not> is_space (last w)" using une hd_dropWhile[of is_space s] by (simp add: u_def)
    then have "\<not> is_space (hd (rev w))" using False by (simp add: hd_rev)
    then show ?thesis using False by (cases "rev w") auto
  qed
  then have "strip (rev w) = rev (dropWhile is_space w)" by (simp add: strip_def)
  also have "\<dots> = rev w" by (simp add: w_def)
  finally show ?thesis by (simp add: s)
qed

lemma SEP_RULE_ne: "SEP_RULE \<noteq> []" by (simp add: SEP_RULE_def)
lemma SEP_PARA_ne: "SEP_PARA \<noteq> []" by (simp add: SEP_PARA_def)

lemma set_slice_subset: "set (slice s i j) \<subseteq> set s"
  unfolding slice_def by (meson set_take_subset set_drop_subset subset_trans)

lemma split_text_subset: "x \<in> set (split_text t) \<Longrightarrow> set x \<subseteq> set t"
  unfolding split_text_def
  using set_split_subset[OF SEP_RULE_ne, of x t] set_split_subset[OF SEP_PARA_ne, of x t]
    set_slice_subset
  by (auto split: if_splits)

text \<open>
  Claim C6. The delimiter cascade is first-match-wins: a text in which
  \<open>"\n\n---\n\n"\<close> occurs is split by \<open>str.split\<close> on that separator and on nothing
  else, also when \<open>"\n\n"\<close> occurs in it: there are at least two segments, joining them
  with the separator gives the text back, and no segment contains the separator. The
  separator \<open>"\n\n"\<close> is used, in the same way, only when the longer one is absent.
\<close>

theorem delimiter_precedence:
  "(str_contains t SEP_RULE \<longrightarrow>
      split_text t = str_split t SEP_RULE \<and> 1 < length (split_text t) \<and>
      str_join SEP_RULE (split_text t) = t \<and>
      (\<forall>s\<in>set (split_text t). \<not> str_contains s SEP_RULE)) \<and>
   (\<not> str_contains t SEP_RULE \<and> str_contains t SEP_PARA \<longrightarrow>
      split_text t = str_split t SEP_PARA \<and> 1 < length (split_text t) \<and>
      str_join SEP_PARA (split_text t) = t \<and>
      (\<forall>s\<in>set (split_text t). \<not> str_contains s SEP_PARA))"
proof (intro conjI impI)
  assume a: "str_contains t SEP_RULE"
  then show e: "split_text t = str_split t SEP_RULE" by (simp add: split_text_def)
  show "1 < length (split_text t)" unfolding e using SEP_RULE_ne a by (rule split_at_least_two)
  show "str_join SEP_RULE (split_text t) = t" unfolding e using SEP_RULE_ne by (rule str_join_split)
  show "\<forall>s\<in>set (split_text t). \<not> str_contains s SEP_RULE"
    unfolding e using split_segments_free[OF SEP_RULE_ne] by blast
next
  assume a: "\<not> str_contains t SEP_RULE \<and> str_contains t SEP_PARA"
  then show e: "split_text t = str_split t SEP_PARA" by (simp add: split_text_def)
  show "1 < length (split_text t)" unfolding e using SEP_PARA_ne a by (blast intro: split_at_least_two)
  show "str_join SEP_PARA (split_text t) = t" unfolding e using SEP_PARA_ne by (rule str_join_split)
  show "\<forall>s\<in>set (split_text t). \<not> str_contains s SEP_PARA"
    unfolding e using split_segments_free[OF SEP_PARA_ne] by blast
qed

theorem delimiter_precedence_witness:
  "str_contains [97, 10, 10, 98, 10, 10, 45, 45, 45, 10, 10, 99] SEP_RULE \<and>
   str_contains [97, 10, 10, 98, 10, 10, 45, 45, 45, 10, 10, 99] SEP_PARA \<and>
   split_text [97, 10, 10, 98, 10, 10, 45, 45, 45, 10, 10, 99] = [[97, 10, 10, 98], [99]] \<and>
   \<not> str_contains [97, 10, 10, 98, 10, 45, 99] SEP_RULE \<and>
   str_contains [97, 10, 10, 98, 10, 45, 99] SEP_PARA \<and>
   split_text [97, 10, 10, 98, 10, 45, 99] = [[97], [98, 10, 45, 99]]"
proof -
  define t1 :: pystr where "t1 = [97, 10, 10, 98, 10, 10, 45, 45, 45, 10, 10, 99]"
  define t2 :: pystr where "t2 = [97, 10, 10, 98, 10, 45, 99]"
  have h1: "str_contains t1 SEP_RULE" unfolding t1_def by (simp add: SEP_RULE_def)
  have h3: "str_contains t1 SEP_PARA" unfolding t1_def by (simp add: SEP_PARA_def)
  have h2: "\<not> str_contains t2 SEP_RULE" unfolding t2_def by (simp add: SEP_RULE_def)
  have h4: "str_contains t2 SEP_PARA" unfolding t2_def by (simp add: SEP_PARA_def)
  have e1: "str_split t1 SEP_RULE = [[97, 10, 10, 98], [99]]"
    unfolding t1_def by (simp add: SEP_RULE_def)
  have e2: "str_split t2 SEP_PARA = [[97], [98, 10, 45, 99]]"
    unfolding t2_def by (simp add: SEP_PARA_def)
  have s1: "split_text t1 = str_split t1 SEP_RULE"
    using delimiter_precedence [of t1] h1 by blast
  have s2: "split_text t2 = str_split t2 SEP_PARA"
    using delimiter_precedence [of t2] h2 h4 by blast
  have "str_contains t1 SEP_RULE \<and> str_contains t1 SEP_PARA \<and>
    split_text t1 = [[97, 10, 10, 98], [99]] \<and> \<not> str_contains t2 SEP_RULE \<and>
    str_contains t2 SEP_PARA \<and> split_text t2 = [[97], [98, 10, 45, 99]]"
    using h1 h2 h3 h4 e1 e2 s1 s2 by (simp only: simp_thms)
  then show ?thesis unfolding t1_def t2_def .
qed

text \<open>
  Claim C7. Whichever rule of the cascade fired, every chunk the chunker returns is
  trimmed (stripping it again changes nothing) and longer than 50 characters; the output
  is a subsequence of the trimmed candidate segments, so input order is kept; and an
  empty or whitespace-only text gives the empty list.
\<close>

theorem chunker_output:
  "(\<forall>c\<in>set (chunker t). strip c = c \<and> 50 < length c) \<and>
   subseq (chunker t) (map strip (split_text t)) \<and>
   ((\<forall>x\<in>set t. is_space x) \<longrightarrow> chunker t = [])"
proof (intro conjI)
  show "\<forall>c\<in>set (chunker t). strip c = c \<and> 50 < length c"
    by (auto simp: chunker_def filter_chunks_eq strip_idem)
  show "subseq (chunker t) (map strip (split_text t))"
    unfolding chunker_def filter_chunks_eq by (rule subseq_map) (rule subseq_filter_left)
  show "(\<forall>x\<in>set t. is_space x) \<longrightarrow> chunker t = []"
  proof
    assume a: "\<forall>x\<in>set t. is_space x"
    have "strip c = []" if "c \<in> set (split_text t)" for c
      using split_text_subset[OF that] a by (auto intro: strip_all_space)
    then show "chunker t = []"
      by (auto simp: chunker_def filter_chunks_eq filter_empty_conv)
  qed
qed


theorem chunker_output_witness:
  "chunker (replicate 51 97 @ [10, 10, 32, 98, 10, 10, 32] @ replicate 52 99 @ [9]) =
     [replicate 51 97, replicate 52 99] \<and>
   strip (replicate 51 97) = replicate 51 97 \<and> 50 < length (replicate 51 (97::nat)) \<and>
   strip (replicate 52 99) = replicate 52 99 \<and> 50 < length (replicate 52 (99::nat)) \<and>
   list_all is_space [32, 10, 10, 9, 8195] \<and> chunker [32, 10, 10, 9, 8195] = []"
proof -
  define t1 :: pystr where
    "t1 = replicate 51 97 @ [10, 10, 32, 98, 10, 10, 32] @ replicate 52 99 @ [9]"
  define t2 :: pystr where "t2 = [32, 10, 10, 9, 8195]"
  have e: "chunker t1 = [replicate 51 97, replicate 52 99]"
    unfolding t1_def
    by (simp add: chunker_def split_text_def filter_chunks_def SEP_PARA_def SEP_RULE_def
        strip_def is_space_def replicate_numeral)
  have h: "\<forall>x\<in>set t2. is_space x"
    unfolding t2_def by (simp add: is_space_def)
  have "\<forall>c\<in>set [replicate 51 97, replicate 52 99]. strip c = c \<and> 50 < length c"
    using chunker_output [of t1] unfolding e by blast
  then have c: "strip (replicate 51 97) = replicate 51 97 \<and> 50 < length (replicate 51 (97::nat)) \<and>
     strip (replicate 52 99) = replicate 52 99 \<and> 50 < length (replicate 52 (99::nat))"
    by (simp only: list.set ball_simps insert_iff simp_thms)
  have n: "chunker t2 = []" using chunker_output [of t2] h by blast
  have l: "list_all is_space t2" using h by (simp only: list_all_iff)
  show ?thesis using e c n l unfolding t1_def t2_def by (simp only: simp_thms)
qed

lemma str_contains_set: "str_contains s sub \<Longrightarrow> set sub \<subseteq> set s"
  by (auto simp: str_contains_iff)

lemma range_step_2500: "range_step 2500 1000 = [0, 1000, 2000]"
  by (simp add: range_step_def upt_rec)

text \<open>
  Claim C9. A text of length 2500 that contains neither \<open>"\n\n---\n\n"\<close> nor
  \<open>"\n\n"\<close> is cut by the fixed-width rule into exactly three consecutive,
  non-overlapping slices of lengths 1000, 1000 and 500, in input order (before trimming
  and filtering).
\<close>

theorem fixed_width_2500:
  assumes "length t = 2500" "\<not> str_contains t SEP_RULE" "\<not> str_contains t SEP_PARA"
  shows "split_text t = [take 1000 t, take 1000 (drop 1000 t), drop 2000 t] \<and>
         map length (split_text t) = [1000, 1000, 500] \<and>
         concat (split_text t) = t"
proof -
  have "drop 2000 t = take 1000 (drop 2000 t)" using assms(1) by simp
  then have e: "split_text t = [take 1000 t, take 1000 (drop 1000 t), drop 2000 t]"
    using assms by (simp add: split_text_def chunk_size_def range_step_2500 slice_def)
  have "take 1000 t @ take 1000 (drop 1000 t) @ drop 2000 t = t"
    by (metis add_2_eq_Suc' append.assoc append_take_drop_id drop_drop numeral_Bit0 take_add)
  then show ?thesis using e assms(1) by simp
qed

theorem fixed_width_2500_witness:
  "length (replicate 2500 (97::nat)) = 2500 \<and>
   \<not> str_contains (replicate 2500 97) SEP_RULE \<and>
   \<not> str_contains (replicate 2500 97) SEP_PARA \<and>
   map length (split_text (replicate 2500 97)) = [1000, 1000, 500]"
proof -
  have h1: "length (replicate 2500 (97::nat)) = 2500" by simp
  have h2: "\<not> str_contains (replicate 2500 97) SEP_RULE"
    using str_contains_set [of "replicate 2500 97" SEP_RULE] by (auto simp: SEP_RULE_def)
  have h3: "\<not> str_contains (replicate 2500 97) SEP_PARA"
    using str_contains_set [of "replicate 2500 97" SEP_PARA] by (auto simp: SEP_PARA_def)
  show ?thesis using fixed_width_2500 [OF h1 h2 h3] h1 h2 h3 by blast
qed

section \<open>The chat endpoints\<close>

text \<open>
  Claim C1, as amended. When the embedding call of a query fails, \<open>chat\<close> makes no
  query to the index and still calls the completion model, once, with an empty context.
  It answers with the trimmed text of the model, or with the fixed apology when the
  completion call fails as well, and with \<open>sources_used = 0\<close>; no backend error
  reaches the caller.
\<close>

theorem chat_embedding_failure:
  assumes "index_present w" "map_of kvs (ascii ''message'') = Some (JStr m)"
    "strip m \<noteq> []" "embedding_reply w (strip m) = None"
  shows "chat w (Body (JObj kvs)) =
     (Chat_Ok (case completion_reply w SYSTEM_MESSAGE (build_prompt [] (strip m)) of
                 None \<Rightarrow> APOLOGY | Some content \<Rightarrow> strip content) 0,
      [Embedding_create (strip m),
       ChatCompletion_create SYSTEM_MESSAGE (build_prompt [] (strip m))])"
proof -
  have ne: "kvs \<noteq> []" using assms(2) by auto
  have s: "search_similar_chunks w (strip m) 5 [] = ([], [Embedding_create (strip m)])"
    using assms(1,4) by (simp add: search_similar_chunks_def get_embedding_def)
  have g: "generate_response w (strip m) [] [Embedding_create (strip m)] =
     (case completion_reply w SYSTEM_MESSAGE (build_prompt [] (strip m)) of
        None \<Rightarrow> APOLOGY | Some content \<Rightarrow> strip content,
      [Embedding_create (strip m),
       ChatCompletion_create SYSTEM_MESSAGE (build_prompt [] (strip m))])"
    by (simp add: generate_response_def Let_def split: option.splits)
  show ?thesis
    using ne assms(2,3) by (simp add: chat_def chat_try_def s g)
qed

theorem chat_embedding_failure_witness:
  "index_present silent_world \<and>
   map_of [(ascii ''message'', JStr [104, 105])] (ascii ''message'') = Some (JStr [104, 105]) \<and>
   embedding_reply silent_world (strip [104, 105]) = None \<and>
   chat silent_world hi_request =
     (Chat_Ok APOLOGY 0,
      [Embedding_create [104, 105],
       ChatCompletion_create SYSTEM_MESSAGE (build_prompt [] [104, 105])])"
proof -
  have s: "strip [104, 105] = [104, 105]" by (simp add: strip_def is_space_def)
  have h1: "index_present silent_world"
    by (simp add: silent_world_def failing_embedding_world_def)
  have h2: "map_of [(ascii ''message'', JStr [104, 105])] (ascii ''message'') = Some (JStr [104, 105])"
    by simp
  have h3: "strip [104, 105] \<noteq> []" by (simp add: s)
  have h4: "embedding_reply silent_world (strip [104, 105]) = None"
    by (simp add: silent_world_def failing_embedding_world_def)
  have c: "completion_reply silent_world SYSTEM_MESSAGE (build_prompt [] [104, 105]) = None"
    by (simp add: silent_world_def failing_embedding_world_def)
  show ?thesis
    using chat_embedding_failure [OF h1 h2 h3 h4] h1 h2 h4
    by (simp add: s c hi_request_def)
qed

text \<open>
  The claim as the specification states it fails: with a failing embedding service and a
  working completion model the answer is the text of the model, not the apology, and the
  completion model has been called.
\<close>

theorem chat_embedding_failure_counterexample:
  "embedding_reply failing_embedding_world [104, 105] = None \<and>
   chat failing_embedding_world hi_request =
     (Chat_Ok [79, 75] 0,
      [Embedding_create [104, 105],
       ChatCompletion_create SYSTEM_MESSAGE (build_prompt [] [104, 105])]) \<and>
   [79, 75] \<noteq> APOLOGY"
  by (simp add: chat_def chat_try_def search_similar_chunks_def get_embedding_def
      generate_response_def failing_embedding_world_def hi_request_def strip_def is_space_def
      APOLOGY_def ascii_def)

text \<open>
  Claim C2. \<open>sources_used\<close> is meant to count the context chunks the prompt was built
  from, at most three. Evaluated on an index that returns five matches, \<open>chat\<close> builds
  the prompt from the first three chunks and reports \<open>sources_used = 5\<close>, the number
  retrieved.
\<close>

theorem chat_sources_used_five:
  "chat five_results_world hi_request =
     (Chat_Ok [79, 75] 5,
      [Embedding_create [104, 105], Index_query [1] 5,
       ChatCompletion_create SYSTEM_MESSAGE
         (build_prompt ([97] @ SEP_PARA @ [98] @ SEP_PARA @ [99]) [104, 105])])"
  by (simp add: chat_def chat_try_def search_similar_chunks_def get_embedding_def
      generate_response_def five_results_world_def hi_request_def strip_def is_space_def)

text \<open>In general \<open>chat\<close> reports the number of chunks retrieved.\<close>

lemma chat_reports_retrieved:
  assumes "index_present w" "map_of kvs (ascii ''message'') = Some (JStr m)"
    "strip m \<noteq> []" "embedding_reply w (strip m) = Some v" "v \<noteq> []"
    "query_reply w v 5 = Some texts"
  shows "\<exists>response calls. chat w (Body (JObj kvs)) = (Chat_Ok response (length texts), calls)"
proof -
  have ne: "kvs \<noteq> []" using assms(2) by auto
  have s: "search_similar_chunks w (strip m) 5 [] =
      (texts, [Embedding_create (strip m), Index_query v 5])"
    using assms(1,4,5,6) by (simp add: search_similar_chunks_def get_embedding_def)
  obtain response calls where
    g: "generate_response w (strip m) texts [Embedding_create (strip m), Index_query v 5] =
      (response, calls)"
    by (cases "generate_response w (strip m) texts [Embedding_create (strip m), Index_query v 5]")
  show ?thesis using ne assms(2,3) by (simp add: chat_def chat_try_def s g)
qed

text \<open>
  Claim C5. Every entry point is meant to return a structured result. \<open>health\<close> of
  \<open>api/chat.py\<close> reads the global \<open>client\<close>, which that module never binds, outside
  any \<open>try\<close>: whatever the configuration, the request ends in a NameError.
\<close>

theorem health_raises_NameError: "health (chat_py_globals index_name index_ok) = Inl (NameError ''client'')"
  by (simp add: health_def chat_py_globals_def)

section \<open>Concrete ingestion runs\<close>

lemma run51:
  "upload_points (replicate 51 para51) flaky_world =
     (51, flaky_world\<lparr>embed_calls := 51, uuid_calls := 51,
            upsert_log := [map web_point [0..<50], map web_point [0..<51]]\<rparr>)"
  by (simp add: upload_points_def enumerate_from0_def replicate_numeral upt_rec
      embed_def uuid4_def client_upsert_def flaky_world_def web_point_def Let_def)

lemma str_split_no_sep: "sep \<noteq> [] \<Longrightarrow> hd sep \<notin> set a \<Longrightarrow> str_split a sep = [a]"
  by (induction a) (auto simp: prefix_def neq_Nil_conv)

lemma str_split_segment:
  assumes "sep \<noteq> []" "hd sep \<notin> set a"
  shows "str_split (a @ sep @ rest) sep = a # str_split rest sep"
  using assms(2)
proof (induction a)
  case Nil
  obtain c cs where sep: "sep = c # cs" using assms(1) by (cases sep) auto
  show ?case by (simp add: sep)
next
  case (Cons x a)
  then have "\<not> prefix sep (x # a @ sep @ rest)" using assms(1) by (auto simp: prefix_def neq_Nil_conv)
  then show ?case using Cons by simp
qed

lemma str_split_repeated:
  assumes "sep \<noteq> []" "hd sep \<notin> set a"
  shows "str_split (concat (replicate n (a @ sep)) @ a) sep = replicate (Suc n) a"
proof (induction n)
  case 0
  then show ?case using assms by (simp add: str_split_no_sep)
next
  case (Suc n)
  have "str_split (a @ sep @ (concat (replicate n (a @ sep)) @ a)) sep =
      a # str_split (concat (replicate n (a @ sep)) @ a) sep"
    using assms by (rule str_split_segment)
  then show ?case using Suc by simp
qed

lemma filter_chunks_replicate:
  "strip p = p \<Longrightarrow> 50 < length p \<Longrightarrow> filter_chunks (replicate n p) = replicate n p"
  by (induction n) (auto simp: filter_chunks_def)

lemma strip_para51: "strip para51 = para51"
  by (simp add: strip_def para51_def is_space_def replicate_numeral)

lemma length_para51: "50 < length para51"
  by (simp add: para51_def)

lemma set_para51: "set para51 = {97}"
  by (simp add: para51_def)

lemma split_text51: "split_text text51 = replicate 51 para51"
proof -
  have "set text51 \<subseteq> {97, 10}" by (auto simp: text51_def set_para51 SEP_PARA_def)
  then have n: "\<not> str_contains text51 SEP_RULE"
    using str_contains_set[of text51 SEP_RULE] by (auto simp: SEP_RULE_def)
  have "text51 = [] @ para51 @ SEP_PARA @ (concat (replicate 49 (para51 @ SEP_PARA)) @ para51)"
    by (simp add: text51_def replicate_numeral[of _ "para51 @ SEP_PARA"])
  then have "text51 = para51 @ SEP_PARA @ (concat (replicate 49 (para51 @ SEP_PARA)) @ para51)"
    by simp
  then have "\<exists>xs ys. text51 = xs @ SEP_PARA @ ys" by (metis append_Nil)
  then have y: "str_contains text51 SEP_PARA" by (simp add: str_contains_iff)
  have "str_split text51 SEP_PARA = replicate (Suc 50) para51"
    unfolding text51_def by (rule str_split_repeated) (simp_all add: SEP_PARA_def set_para51)
  then show ?thesis using n y by (simp add: split_text_def)
qed

lemma chunker_text51: "chunker text51 = replicate 51 para51"
  by (simp add: chunker_def split_text51 filter_chunks_replicate strip_para51 length_para51)

lemma chunker_twice_text: "chunker twice_text = [para51, para51]"
proof -
  have "set twice_text \<subseteq> {97, 10}" by (auto simp: twice_text_def set_para51 SEP_PARA_def)
  then have n: "\<not> str_contains twice_text SEP_RULE"
    using str_contains_set[of twice_text SEP_RULE] by (auto simp: SEP_RULE_def)
  have "\<exists>xs ys. twice_text = xs @ SEP_PARA @ ys" unfolding twice_text_def by (metis append_Nil)
  then have y: "str_contains twice_text SEP_PARA" by (simp add: str_contains_iff)
  have "str_split (concat (replicate 1 (para51 @ SEP_PARA)) @ para51) SEP_PARA = replicate (Suc 1) para51"
    by (rule str_split_repeated) (simp_all add: SEP_PARA_def set_para51)
  then have "str_split twice_text SEP_PARA = [para51, para51]"
    by (simp add: twice_text_def)
  then have "split_text twice_text = replicate (Suc (Suc 0)) para51"
    using n y by (simp add: split_text_def)
  then have "chunker twice_text = replicate (Suc (Suc 0)) para51"
    unfolding chunker_def by (simp only: filter_chunks_replicate[OF strip_para51 length_para51])
  then show ?thesis by simp
qed

lemma para51_ne: "para51 \<noteq> []" by (simp add: para51_def replicate_numeral)

lemma text51_ne: "text51 \<noteq> []" by (simp add: text51_def para51_ne)

lemma upload_data_text51:
  "upload_data flaky_world (upload_request text51) =
     (Upload_Success 51 51,
      flaky_world\<lparr>embed_calls := 51, uuid_calls := 51,
        upsert_log := [map web_point [0..<50], map web_point [0..<51]]\<rparr>)"
proof -
  have c: "create_collection flaky_world = (True, ''Collection already exists.'', flaky_world)"
    by (simp add: create_collection_def flaky_world_def)
  have a: "admin_password flaky_world = ascii ''admin123''" by (simp add: flaky_world_def)
  have k: "ascii ''password'' \<noteq> ascii ''text_data''" by (simp add: ascii_def)
  have r: "replicate 51 para51 \<noteq> []" by (simp add: replicate_numeral)
  show ?thesis
    by (simp add: upload_data_def upload_data_try_def upload_request_def k k[symmetric] a c text51_ne
        chunker_text51 r run51 Let_def)
qed

lemma run2:
  "upload_points [para51, para51] steady_world =
     (2, steady_world\<lparr>embed_calls := 2, uuid_calls := 2,
            upsert_log := [[web_point 0, web_point 1]]\<rparr>)"
  by (simp add: upload_points_def enumerate_from0_def upt_rec steady_world_def
      embed_def uuid4_def client_upsert_def flaky_world_def web_point_def Let_def)

lemma upload_data_twice:
  "upload_data steady_world (upload_request twice_text) =
     (Upload_Success 2 2,
      steady_world\<lparr>embed_calls := 2, uuid_calls := 2,
        upsert_log := [[web_point 0, web_point 1]]\<rparr>)"
proof -
  have c: "create_collection steady_world = (True, ''Collection already exists.'', steady_world)"
    by (simp add: create_collection_def flaky_world_def steady_world_def)
  have a: "admin_password steady_world = ascii ''admin123''"
    by (simp add: flaky_world_def steady_world_def)
  have k: "ascii ''password'' \<noteq> ascii ''text_data''" by (simp add: ascii_def)
  have t: "twice_text \<noteq> []" by (simp add: twice_text_def para51_ne)
  show ?thesis
    by (simp add: upload_data_def upload_data_try_def upload_request_def k k[symmetric] a c t
        chunker_twice_text run2 Let_def)
qed

text \<open>
  Claim C3. Chunks with equal text are meant to be uploaded at most once per run, and
  \<open>main\<close> of the script removes duplicates before it uploads. \<open>upload_data\<close> does
  not: for a text of two equal paragraphs it embeds both and sends both, with the same
  text, in one batch.
\<close>

theorem upload_data_duplicates:
  "chunker twice_text = [para51, para51] \<and>
   upload_data steady_world (upload_request twice_text) =
     (Upload_Success 2 2,
      steady_world\<lparr>embed_calls := 2, uuid_calls := 2,
        upsert_log := [[web_point 0, web_point 1]]\<rparr>) \<and>
   payload_text (web_point 0) = payload_text (web_point 1)"
  by (simp add: chunker_twice_text upload_data_twice web_point_def)

text \<open>
  Claim C4. After a failed upsert of a full batch the run is meant to go on with an empty
  accumulator, as \<open>upload_chunks_to_qdrant\<close> of the script does. In \<open>upload_data\<close>
  the handler leaves \<open>points\<close> as it is: for 51 chunks and a store whose first upsert
  fails, the second upsert carries the 50 points of the failed batch again, and all 51
  chunks are counted as uploaded.
\<close>

theorem upload_data_failed_batch_resent:
  "upsert_reply flaky_world 0 (map web_point [0..<50]) = False \<and>
   upload_data flaky_world (upload_request text51) =
     (Upload_Success 51 51,
      flaky_world\<lparr>embed_calls := 51, uuid_calls := 51,
        upsert_log := [map web_point [0..<50], map web_point [0..<51]]\<rparr>) \<and>
   set (map web_point [0..<50]) \<subseteq> set (map web_point [0..<51])"
proof -
  have "upsert_reply flaky_world 0 (map web_point [0..<50]) = False"
    by (simp add: flaky_world_def)
  moreover have "set (map web_point [0..<50]) \<subseteq> set (map web_point [0..<51])"
    by auto
  ultimately show ?thesis by (simp only: upload_data_text51 simp_thms)
qed

text \<open>
  Claim C8. With 51 chunks, all embedded, and batches of 50, the upsert is meant to be
  called with 50 points and then with 1 point. In \<open>upload_data\<close>, when the first upsert
  fails, the second call carries 51 points; it is the same defect as in claim C4.
\<close>

theorem upload_data_batch_sizes:
  "map length (upsert_log (snd (upload_data flaky_world (upload_request text51)))) = [50, 51]"
  by (simp add: upload_data_text51)

section \<open>Point ids\<close>

lemma new_batches_append: "upsert_log w' = upsert_log w @ new \<Longrightarrow> new_batches w w' = new"
  by (simp add: new_batches_def)

lemma extends_refl: "extends w w"
  by (simp add: extends_def)

lemma extends_trans: "extends a b \<Longrightarrow> extends b c \<Longrightarrow> extends a c"
  unfolding extends_def by (metis order_trans prefix_order.trans)

lemma new_batches_trans:
  assumes "extends a b" "extends b c"
  shows "new_batches a c = new_batches a b @ new_batches b c"
proof -
  obtain x where x: "upsert_log b = upsert_log a @ x"
    using assms(1) by (auto simp: extends_def prefix_def)
  obtain y where y: "upsert_log c = upsert_log b @ y"
    using assms(2) by (auto simp: extends_def prefix_def)
  have "upsert_log c = upsert_log a @ (x @ y)" unfolding y x by simp
  then have "new_batches a c = x @ y" by (rule new_batches_append)
  then show ?thesis using new_batches_append[OF x] new_batches_append[OF y] by simp
qed

text \<open>What the three service calls change.\<close>

lemma embed_fields:
  "embed t w = (r, w1) \<Longrightarrow>
     r = embed_reply w (embed_calls w) t \<and> embed_reply w1 = embed_reply w \<and>
     uuid_source w1 = uuid_source w \<and> embed_calls w1 = Suc (embed_calls w) \<and>
     uuid_calls w1 = uuid_calls w \<and> extends w w1 \<and> new_batches w w1 = []"
  by (auto simp: embed_def extends_def new_batches_def)

lemma uuid4_fields:
  "uuid4 w = (uid, w1) \<Longrightarrow>
     uid = uuid_source w (uuid_calls w) \<and> embed_reply w1 = embed_reply w \<and>
     uuid_source w1 = uuid_source w \<and> embed_calls w1 = embed_calls w \<and>
     uuid_calls w1 = Suc (uuid_calls w) \<and> extends w w1 \<and> new_batches w w1 = []"
  by (auto simp: uuid4_def extends_def new_batches_def)

lemma client_upsert_fields:
  "client_upsert points w = (ok, w1) \<Longrightarrow>
     embed_reply w1 = embed_reply w \<and> uuid_source w1 = uuid_source w \<and>
     embed_calls w1 = embed_calls w \<and> uuid_calls w1 = uuid_calls w \<and>
     extends w w1 \<and> new_batches w w1 = [points]"
  by (auto simp: client_upsert_def extends_def new_batches_def)

lemma upt_shift: "[m..<m + Suc n] = m # [Suc m..<Suc m + n]"
proof -
  have "m < m + Suc n" by simp
  then have "[m..<m + Suc n] = m # [Suc m..<m + Suc n]" by (rule upt_conv_Cons)
  then show ?thesis by simp
qed

lemma points_from_Nil: "points_from src source m [] = []"
  by (simp add: points_from_def)

lemma points_from_Cons:
  "points_from src source m ((i, chunk, e) # es) =
     \<lparr>point_id = source m, vector = e, payload_text = chunk, payload_chunk_id = i,
      payload_source = src\<rparr> # points_from src source (Suc m) es"
proof -
  have "[m..<m + length ((i, chunk, e) # es)] = m # [Suc m..<Suc m + length es]"
    using upt_shift[of m "length es"] by simp
  then show ?thesis by (simp add: points_from_def)
qed

lemma points_from_ids:
  "map point_id (points_from src source m es) = map source [m..<m + length es]"
proof (induction es arbitrary: m)
  case Nil
  then show ?case by (simp add: points_from_Nil)
next
  case (Cons x es)
  obtain i chunk e where x: "x = (i, chunk, e)" by (cases x)
  have "[m..<m + length (x # es)] = m # [Suc m..<Suc m + length es]"
    using upt_shift[of m "length es"] by simp
  then show ?case unfolding x by (simp add: points_from_Cons Cons.IH)
qed

lemma points_from_texts:
  "map payload_text (points_from src source m es) = map (\<lambda>(i, chunk, e). chunk) es"
proof (induction es arbitrary: m)
  case Nil
  then show ?case by (simp add: points_from_Nil)
next
  case (Cons x es)
  obtain i chunk e where x: "x = (i, chunk, e)" by (cases x)
  show ?case unfolding x by (simp add: points_from_Cons Cons.IH)
qed

lemma points_from_length: "length (points_from src source m es) = length es"
  by (simp add: points_from_def)

text \<open>The loop of the script: what it has sent and still holds is what it held at the
  start and the points of the chunks embedded since, each once and in order.\<close>

lemma cli_upload_loop_sent:
  "cli_upload_loop b cs points w = (points', w') \<Longrightarrow>
     extends w w' \<and> embed_reply w' = embed_reply w \<and>
     embed_calls w' = embed_calls w + length cs \<and>
     uuid_calls w' = uuid_calls w + length (embedded (embed_reply w) (embed_calls w) cs) \<and>
     concat (new_batches w w') @ points' =
       points @ points_from ''mite-website'' (uuid_source w) (uuid_calls w)
         (embedded (embed_reply w) (embed_calls w) cs)"
proof (induction cs arbitrary: points w)
  case Nil
  then show ?case by (simp add: extends_refl new_batches_def points_from_Nil)
next
  case (Cons c cs)
  obtain i chunk where c: "c = (i, chunk)" by (cases c)
  obtain r w1 where e: "embed chunk w = (r, w1)" by (cases "embed chunk w")
  note ef = embed_fields[OF e]
  show ?case
  proof (cases r)
    case None
    then have l: "cli_upload_loop b cs points w1 = (points', w')"
      using Cons.prems c e by simp
    note ih = Cons.IH[OF l]
    have nb: "new_batches w w' = new_batches w1 w'"
      using new_batches_trans[of w w1 w'] ef ih by simp
    have x: "extends w w'" using ef ih by (blast intro: extends_trans)
    have r: "embed_reply w (embed_calls w) chunk = None" using ef None by simp
    show ?thesis using ih x unfolding nb c by (simp add: ef r)
  next
    case (Some embedding)
    obtain uid w2 where u: "uuid4 w1 = (uid, w2)" by (cases "uuid4 w1")
    note uf = uuid4_fields[OF u]
    define point where "point = \<lparr>point_id = uid, vector = embedding, payload_text = chunk,
                            payload_chunk_id = i, payload_source = ''mite-website''\<rparr>"
    have e2: "extends w w2" using ef uf by (blast intro: extends_trans)
    have n2: "new_batches w w2 = []" using new_batches_trans[of w w1 w2] ef uf by simp
    have r: "embed_reply w (embed_calls w) chunk = Some embedding" using ef Some by simp
    have cr: "points_from ''mite-website'' (uuid_source w) (uuid_calls w)
         (embedded (embed_reply w) (embed_calls w) (c # cs)) =
       point # points_from ''mite-website'' (uuid_source w) (Suc (uuid_calls w))
         (embedded (embed_reply w) (Suc (embed_calls w)) cs)"
      unfolding c point_def using r uf ef by (simp add: points_from_Cons)
    have len: "length (embedded (embed_reply w) (embed_calls w) (c # cs)) =
       Suc (length (embedded (embed_reply w) (Suc (embed_calls w)) cs))"
      unfolding c using r by simp
    show ?thesis
    proof (cases "b \<le> length (points @ [point])")
      case False
      then have l: "cli_upload_loop b cs (points @ [point]) w2 = (points', w')"
        using Cons.prems c e Some u by (simp add: point_def Let_def)
      note ih = Cons.IH[OF l]
      have nb: "new_batches w w' = new_batches w2 w'"
        using new_batches_trans[of w w2 w'] e2 n2 ih by simp
      have x: "extends w w'" using e2 ih by (blast intro: extends_trans)
      show ?thesis using ih x unfolding nb cr len by (simp add: ef uf)
    next
      case True
      obtain ok w3 where up: "client_upsert (points @ [point]) w2 = (ok, w3)"
        by (cases "client_upsert (points @ [point]) w2")
      note upf = client_upsert_fields[OF up]
      have e3: "extends w w3" using e2 upf by (blast intro: extends_trans)
      have n3: "new_batches w w3 = [points @ [point]]"
        using new_batches_trans[of w w2 w3] e2 n2 upf by simp
      have l: "cli_upload_loop b cs [] w3 = (points', w')"
        using Cons.prems c e Some u up True by (simp add: point_def Let_def)
      note ih = Cons.IH[OF l]
      have nb: "new_batches w w' = (points @ [point]) # new_batches w3 w'"
        using new_batches_trans[of w w3 w'] e3 n3 ih by simp
      have x: "extends w w'" using e3 ih by (blast intro: extends_trans)
      show ?thesis using ih x unfolding nb cr len by (simp add: ef uf upf)
    qed
  qed
qed

text \<open>The loop of the web upload: the same points, as a set; a batch whose upsert
  failed stays in \<open>points\<close> and is sent again.\<close>

lemma upload_loop_sent:
  "upload_loop cs points n w = (points', n', w') \<Longrightarrow>
     extends w w' \<and> embed_reply w' = embed_reply w \<and>
     embed_calls w' = embed_calls w + length cs \<and>
     uuid_calls w' = uuid_calls w + length (embedded (embed_reply w) (embed_calls w) cs) \<and>
     set (concat (new_batches w w')) \<union> set points' =
       set points \<union> set (points_from ''web-upload'' (uuid_source w) (uuid_calls w)
         (embedded (embed_reply w) (embed_calls w) cs))"
proof (induction cs arbitrary: points n w)
  case Nil
  then show ?case by (simp add: extends_refl new_batches_def points_from_Nil)
next
  case (Cons c cs)
  obtain i chunk where c: "c = (i, chunk)" by (cases c)
  obtain r w1 where e: "embed chunk w = (r, w1)" by (cases "embed chunk w")
  note ef = embed_fields[OF e]
  show ?case
  proof (cases r)
    case None
    then have l: "upload_loop cs points n w1 = (points', n', w')"
      using Cons.prems c e by simp
    note ih = Cons.IH[OF l]
    have nb: "new_batches w w' = new_batches w1 w'"
      using new_batches_trans[of w w1 w'] ef ih by simp
    have x: "extends w w'" using ef ih by (blast intro: extends_trans)
    have r: "embed_reply w (embed_calls w) chunk = None" using ef None by simp
    show ?thesis using ih x unfolding nb c by (simp add: ef r)
  next
    case (Some embedding)
    obtain uid w2 where u: "uuid4 w1 = (uid, w2)" by (cases "uuid4 w1")
    note uf = uuid4_fields[OF u]
    define point where "point = \<lparr>point_id = uid, vector = embedding, payload_text = chunk,
                            payload_chunk_id = i, payload_source = ''web-upload''\<rparr>"
    define rest where "rest = points_from ''web-upload'' (uuid_source w) (Suc (uuid_calls w))
         (embedded (embed_reply w) (Suc (embed_calls w)) cs)"
    have e2: "extends w w2" using ef uf by (blast intro: extends_trans)
    have n2: "new_batches w w2 = []" using new_batches_trans[of w w1 w2] ef uf by simp
    have r: "embed_reply w (embed_calls w) chunk = Some embedding" using ef Some by simp
    have cr: "points_from ''web-upload'' (uuid_source w) (uuid_calls w)
         (embedded (embed_reply w) (embed_calls w) (c # cs)) = point # rest"
      unfolding c point_def rest_def using r uf ef by (simp add: points_from_Cons)
    have len: "length (embedded (embed_reply w) (embed_calls w) (c # cs)) =
       Suc (length (embedded (embed_reply w) (Suc (embed_calls w)) cs))"
      unfolding c using r by simp
    show ?thesis
    proof (cases "50 \<le> length (points @ [point])")
      case False
      then have l: "upload_loop cs (points @ [point]) n w2 = (points', n', w')"
        using Cons.prems c e Some u by (simp add: point_def Let_def)
      note ih = Cons.IH[OF l]
      have nb: "new_batches w w' = new_batches w2 w'"
        using new_batches_trans[of w w2 w'] e2 n2 ih by simp
      have x: "extends w w'" using e2 ih by (blast intro: extends_trans)
      have s: "set (concat (new_batches w2 w')) \<union> set points' =
          set (points @ [point]) \<union> set rest"
        using ih by (simp add: ef uf rest_def)
      have "set (concat (new_batches w w')) \<union> set points' = set points \<union> set (point # rest)"
        unfolding nb s by auto
      then show ?thesis using ih x unfolding cr len by (simp add: ef uf)
    next
      case True
      obtain ok w3 where up: "client_upsert (points @ [point]) w2 = (ok, w3)"
        by (cases "client_upsert (points @ [point]) w2")
      note upf = client_upsert_fields[OF up]
      have e3: "extends w w3" using e2 upf by (blast intro: extends_trans)
      have n3: "new_batches w w3 = [points @ [point]]"
        using new_batches_trans[of w w2 w3] e2 n2 upf by simp
      have "\<exists>ps m. upload_loop cs ps m w3 = (points', n', w') \<and>
          (ps = [] \<or> ps = points @ [point])"
      proof (cases ok)
        case True
        then have "upload_loop cs [] (n + length (points @ [point])) w3 = (points', n', w')"
          using Cons.prems c e Some u up \<open>50 \<le> length (points @ [point])\<close>
          by (simp add: point_def Let_def)
        then show ?thesis by blast
      next
        case False
        then have "upload_loop cs (points @ [point]) n w3 = (points', n', w')"
          using Cons.prems c e Some u up \<open>50 \<le> length (points @ [point])\<close>
          by (simp add: point_def Let_def)
        then show ?thesis by blast
      qed
      then obtain ps m where l: "upload_loop cs ps m w3 = (points', n', w')"
        and ps: "ps = [] \<or> ps = points @ [point]" by blast
      note ih = Cons.IH[OF l]
      have nb: "new_batches w w' = (points @ [point]) # new_batches w3 w'"
        using new_batches_trans[of w w3 w'] e3 n3 ih by simp
      have x: "extends w w'" using e3 ih by (blast intro: extends_trans)
      have s: "set (concat (new_batches w3 w')) \<union> set points' = set ps \<union> set rest"
        using ih by (simp add: ef uf upf rest_def)
      have "set (points @ [point]) \<union> (set (concat (new_batches w3 w')) \<union> set points') =
          set points \<union> set (point # rest)"
        unfolding s using ps by auto
      then have "set (concat (new_batches w w')) \<union> set points' = set points \<union> set (point # rest)"
        unfolding nb by (simp add: Un_assoc)
      then show ?thesis using ih x unfolding cr len by (simp add: ef uf upf)
    qed
  qed
qed

lemma upload_chunks_to_qdrant_sent:
  "extends w (upload_chunks_to_qdrant chunks b w) \<and>
   embed_reply (upload_chunks_to_qdrant chunks b w) = embed_reply w \<and>
   embed_calls (upload_chunks_to_qdrant chunks b w) = embed_calls w + length chunks \<and>
   uuid_calls (upload_chunks_to_qdrant chunks b w) =
     uuid_calls w + length (embedded_chunks chunks w) \<and>
   concat (new_batches w (upload_chunks_to_qdrant chunks b w)) =
     run_points ''mite-website'' chunks w"
proof -
  obtain points w1 where l: "cli_upload_loop b (enumerate_from0 chunks) [] w = (points, w1)"
    by (cases "cli_upload_loop b (enumerate_from0 chunks) [] w") auto
  note s = cli_upload_loop_sent[OF l]
  have len: "length (enumerate_from0 chunks) = length chunks"
    by (simp add: enumerate_from0_def)
  show ?thesis
  proof (cases "points = []")
    case True
    then show ?thesis using l s len
      by (simp add: upload_chunks_to_qdrant_def run_points_def embedded_chunks_def)
  next
    case False
    obtain ok w2 where up: "client_upsert points w1 = (ok, w2)"
      by (cases "client_upsert points w1")
    note upf = client_upsert_fields[OF up]
    have r: "upload_chunks_to_qdrant chunks b w = w2"
      using l False up by (simp add: upload_chunks_to_qdrant_def)
    have nb: "new_batches w w2 = new_batches w w1 @ [points]"
      using new_batches_trans[of w w1 w2] s upf by simp
    have x: "extends w w2" using s upf by (blast intro: extends_trans)
    show ?thesis unfolding r nb using s x upf len
      by (simp add: run_points_def embedded_chunks_def)
  qed
qed

lemma upload_points_sent:
  assumes "upload_points chunks w = (n, w')"
  shows "extends w w' \<and> embed_reply w' = embed_reply w \<and>
     embed_calls w' = embed_calls w + length chunks \<and>
     uuid_calls w' = uuid_calls w + length (embedded_chunks chunks w) \<and>
     set (concat (new_batches w w')) = set (run_points ''web-upload'' chunks w)"
proof -
  obtain points m w1 where l: "upload_loop (enumerate_from0 chunks) [] 0 w = (points, m, w1)"
    by (cases "upload_loop (enumerate_from0 chunks) [] 0 w") auto
  note s = upload_loop_sent[OF l]
  have len: "length (enumerate_from0 chunks) = length chunks"
    by (simp add: enumerate_from0_def)
  show ?thesis
  proof (cases "points = []")
    case True
    then have "w' = w1" using assms l by (simp add: upload_points_def)
    then show ?thesis using True s len by (simp add: run_points_def embedded_chunks_def)
  next
    case False
    obtain ok w2 where up: "client_upsert points w1 = (ok, w2)"
      by (cases "client_upsert points w1")
    note upf = client_upsert_fields[OF up]
    have r: "w' = w2" using assms l False up by (cases ok) (simp_all add: upload_points_def)
    have nb: "new_batches w w2 = new_batches w w1 @ [points]"
      using new_batches_trans[of w w1 w2] s upf by simp
    have x: "extends w w2" using s upf by (blast intro: extends_trans)
    have "set (concat (new_batches w w2)) = set (concat (new_batches w w1)) \<union> set points"
      unfolding nb by simp
    then show ?thesis unfolding r using s x upf len
      by (simp add: run_points_def embedded_chunks_def)
  qed
qed

lemma run_points_ids:
  "map point_id (run_points src chunks w) =
     map (uuid_source w) [uuid_calls w..<uuid_calls w + length (embedded_chunks chunks w)]"
  by (simp add: run_points_def points_from_ids)

lemma run_points_id_set:
  "point_id ` set (run_points src chunks w) =
     uuid_source w ` {uuid_calls w..<uuid_calls w + length (embedded_chunks chunks w)}"
proof -
  have "point_id ` set (run_points src chunks w) = set (map point_id (run_points src chunks w))"
    by simp
  also have "\<dots> = uuid_source w ` {uuid_calls w..<uuid_calls w + length (embedded_chunks chunks w)}"
    unfolding run_points_ids by simp
  finally show ?thesis .
qed

lemma run_points_distinct:
  assumes "inj (uuid_source w)"
  shows "distinct (map point_id (run_points src chunks w))"
proof -
  have "inj_on (uuid_source w) (set [uuid_calls w..<uuid_calls w + length (embedded_chunks chunks w)])"
    using assms by (rule inj_on_subset) simp
  then show ?thesis unfolding run_points_ids by (simp add: distinct_map)
qed

text \<open>A second run draws later values: with a source that does not repeat, its ids
  are not those of the first.\<close>

lemma later_run_disjoint:
  assumes "inj source" "m + k \<le> (m'::nat)"
  shows "source ` {m'..<m' + k'} \<inter> source ` {m..<m + k} = {}"
proof -
  have "x \<notin> {m..<m + k}" if "x \<in> {m'..<m' + k'}" for x
  proof -
    have "m + k \<le> x" using that assms(2) by simp
    then show ?thesis by simp
  qed
  then have d: "{m'..<m' + k'} \<inter> {m..<m + k} = {}" by blast
  have "source ` {m'..<m' + k'} \<inter> source ` {m..<m + k} =
      source ` ({m'..<m' + k'} \<inter> {m..<m + k})"
    using assms(1) by (rule image_Int[symmetric])
  also have "\<dots> = {}" by (simp only: d image_empty)
  finally show ?thesis .
qed

text \<open>
  Claim C10. Each successfully embedded chunk gets one point, and the id of that point is
  the next value \<open>uuid.uuid4()\<close> returns: the script sends exactly the points
  \<open>run_points\<close> lists, each once and in order, and the web upload sends exactly the same
  set of points; their ids are the successive values of the uuid source from the start of
  the run, one for each embedded chunk, whatever the text, the ordinal and the source of
  the chunk. Consequently, with a uuid source that does not repeat a value, the ids of a
  run are pairwise different, and ingesting the same chunks again sends points whose ids
  are all different from those of the first run: the second run adds points and overwrites
  none.
\<close>

theorem point_ids_fresh:
  assumes "upload_points chunks w = (n, w')"
    and "upload_points chunks w' = (n2, w'')"
    and "v = upload_chunks_to_qdrant chunks batch_size w"
    and "v' = upload_chunks_to_qdrant chunks batch_size v"
  shows
    "concat (new_batches w v) = run_points ''mite-website'' chunks w \<and>
     concat (new_batches v v') = run_points ''mite-website'' chunks v \<and>
     set (concat (new_batches w w')) = set (run_points ''web-upload'' chunks w) \<and>
     set (concat (new_batches w' w'')) = set (run_points ''web-upload'' chunks w') \<and>
     map point_id (run_points src chunks w) =
       map (uuid_source w) [uuid_calls w..<uuid_calls w + length (embedded_chunks chunks w)] \<and>
     map payload_text (run_points src chunks w) =
       map (\<lambda>(i, chunk, e). chunk) (embedded_chunks chunks w) \<and>
     uuid_calls v = uuid_calls w + length (embedded_chunks chunks w) \<and>
     uuid_calls w' = uuid_calls w + length (embedded_chunks chunks w) \<and>
     (inj (uuid_source w) \<longrightarrow>
        distinct (map point_id (concat (new_batches w v))) \<and>
        point_id ` set (concat (new_batches v v')) \<inter>
          point_id ` set (concat (new_batches w v)) = {} \<and>
        point_id ` set (concat (new_batches w' w'')) \<inter>
          point_id ` set (concat (new_batches w w')) = {})"
proof -
  note s1 = upload_chunks_to_qdrant_sent[of w chunks batch_size, folded assms(3)]
  note s2 = upload_chunks_to_qdrant_sent[of v chunks batch_size, folded assms(4)]
  note t1 = upload_points_sent[OF assms(1)]
  note t2 = upload_points_sent[OF assms(2)]
  have sv: "uuid_source v = uuid_source w" using s1 by (simp add: extends_def)
  have sw: "uuid_source w' = uuid_source w" using t1 by (simp add: extends_def)
  have texts: "map payload_text (run_points src chunks w) =
       map (\<lambda>(i, chunk, e). chunk) (embedded_chunks chunks w)"
    by (simp add: run_points_def points_from_texts)
  have fresh: "distinct (map point_id (concat (new_batches w v))) \<and>
        point_id ` set (concat (new_batches v v')) \<inter>
          point_id ` set (concat (new_batches w v)) = {} \<and>
        point_id ` set (concat (new_batches w' w'')) \<inter>
          point_id ` set (concat (new_batches w w')) = {}"
    if i: "inj (uuid_source w)"
  proof (intro conjI)
    show "distinct (map point_id (concat (new_batches w v)))"
      using s1 run_points_distinct[OF i, of "''mite-website''" chunks] by simp
    have a: "point_id ` set (concat (new_batches w v)) =
        uuid_source w ` {uuid_calls w..<uuid_calls w + length (embedded_chunks chunks w)}"
      using s1 by (simp add: run_points_id_set)
    have b: "point_id ` set (concat (new_batches v v')) =
        uuid_source w ` {uuid_calls v..<uuid_calls v + length (embedded_chunks chunks v)}"
      using s2 by (simp add: run_points_id_set sv)
    have "uuid_calls w + length (embedded_chunks chunks w) \<le> uuid_calls v" using s1 by simp
    then show "point_id ` set (concat (new_batches v v')) \<inter>
        point_id ` set (concat (new_batches w v)) = {}"
      unfolding a b using i by (rule later_run_disjoint[rotated])
    have c: "point_id ` set (concat (new_batches w w')) =
        uuid_source w ` {uuid_calls w..<uuid_calls w + length (embedded_chunks chunks w)}"
      using t1 by (simp add: run_points_id_set)
    have d: "point_id ` set (concat (new_batches w' w'')) =
        uuid_source w ` {uuid_calls w'..<uuid_calls w' + length (embedded_chunks chunks w')}"
      using t2 by (simp add: run_points_id_set sw)
    have "uuid_calls w + length (embedded_chunks chunks w) \<le> uuid_calls w'" using t1 by simp
    then show "point_id ` set (concat (new_batches w' w'')) \<inter>
        point_id ` set (concat (new_batches w w')) = {}"
      unfolding c d using i by (rule later_run_disjoint[rotated])
  qed
  show ?thesis using s1 s2 t1 t2 texts fresh by (simp add: run_points_ids)
qed

theorem point_ids_fresh_witness:
  "inj (uuid_source steady_world) \<and>
   map point_id (concat (new_batches steady_world
     (upload_chunks_to_qdrant [para51, para51] 50 steady_world))) = [0, 1] \<and>
   map payload_text (concat (new_batches steady_world
     (upload_chunks_to_qdrant [para51, para51] 50 steady_world))) = [para51, para51] \<and>
   map point_id (concat (new_batches
     (upload_chunks_to_qdrant [para51, para51] 50 steady_world)
     (upload_chunks_to_qdrant [para51, para51] 50
       (upload_chunks_to_qdrant [para51, para51] 50 steady_world)))) = [2, 3] \<and>
   point_id ` set (concat (new_batches
     (upload_chunks_to_qdrant [para51, para51] 50 steady_world)
     (upload_chunks_to_qdrant [para51, para51] 50
       (upload_chunks_to_qdrant [para51, para51] 50 steady_world)))) \<inter>
   point_id ` set (concat (new_batches steady_world
     (upload_chunks_to_qdrant [para51, para51] 50 steady_world))) = {} \<and>
   point_id ` set (concat (new_batches (snd (upload_points [para51, para51] steady_world))
     (snd (upload_points [para51, para51] (snd (upload_points [para51, para51] steady_world)))))) \<inter>
   point_id ` set (concat (new_batches steady_world
     (snd (upload_points [para51, para51] steady_world)))) = {}"
proof -
  define chunks where "chunks = [para51, para51]"
  define v where "v = upload_chunks_to_qdrant chunks 50 steady_world"
  define v' where "v' = upload_chunks_to_qdrant chunks 50 v"
  define w' where "w' = snd (upload_points chunks steady_world)"
  define w'' where "w'' = snd (upload_points chunks w')"
  have r1: "upload_points chunks steady_world = (fst (upload_points chunks steady_world), w')"
    by (simp add: w'_def)
  have r2: "upload_points chunks w' = (fst (upload_points chunks w'), w'')"
    by (simp add: w''_def)
  have i: "inj (uuid_source steady_world)"
    by (simp add: steady_world_def flaky_world_def)
  have f: "uuid_source steady_world = (\<lambda>n. n)" "uuid_calls steady_world = 0"
    "embed_reply steady_world = (\<lambda>n text. Some [0])" "embed_calls steady_world = 0"
    by (simp_all add: steady_world_def flaky_world_def)
  have e1: "embedded_chunks chunks steady_world = [(0, para51, [0]), (1, para51, [0])]"
    by (simp add: embedded_chunks_def enumerate_from0_def upt_rec f chunks_def)
  note s = upload_chunks_to_qdrant_sent[of steady_world chunks 50, folded v_def]
  have fv: "uuid_source v = (\<lambda>n. n)" "uuid_calls v = 2" "embed_reply v = (\<lambda>n text. Some [0])"
    using s by (simp_all add: extends_def f e1)
  have e2: "embedded_chunks chunks v = [(0, para51, [0]), (1, para51, [0])]"
    by (simp add: embedded_chunks_def enumerate_from0_def upt_rec fv chunks_def)
  note t1 = point_ids_fresh [OF r1 r2 v_def v'_def, of "''mite-website''"]
  note t2 = point_ids_fresh [OF surjective_pairing surjective_pairing v'_def refl,
      of "''mite-website''"]
  have a: "map point_id (concat (new_batches steady_world v)) = [0, 1]"
    using t1 by (simp add: f e1 upt_rec)
  have b: "map payload_text (concat (new_batches steady_world v)) = [para51, para51]"
    using t1 by (simp add: e1)
  have c: "map point_id (concat (new_batches v v')) = [2, 3]"
    using t1 t2 by (simp add: fv e2 upt_rec)
  have d: "point_id ` set (concat (new_batches v v')) \<inter>
      point_id ` set (concat (new_batches steady_world v)) = {} \<and>
    point_id ` set (concat (new_batches w' w'')) \<inter>
      point_id ` set (concat (new_batches steady_world w')) = {}"
    using t1 i by blast
  show ?thesis
    using i a b c d unfolding v'_def v_def w''_def w'_def chunks_def by (simp only: simp_thms)
qed

section \<open>Deduplication in the script\<close>

text \<open>\<open>list(set(xs))\<close> lists the elements of \<open>xs\<close>, each once, whatever the order.\<close>

lemma list_in_order_distinct:
  "distinct ys \<Longrightarrow> length ys \<le> n \<Longrightarrow>
     distinct (list_in_order pick n ys) \<and> set (list_in_order pick n ys) = set ys"
proof (induction n arbitrary: ys)
  case 0
  then show ?case by simp
next
  case (Suc n)
  show ?case
  proof (cases "ys = []")
    case True
    then show ?thesis by simp
  next
    case False
    define k where "k = pick ys mod length ys"
    define rest where "rest = take k ys @ drop (Suc k) ys"
    have k: "k < length ys" using False by (simp add: k_def)
    have ys: "ys = take k ys @ ys ! k # drop (Suc k) ys" using k by (rule id_take_nth_drop)
    have "distinct (take k ys @ ys ! k # drop (Suc k) ys)" using Suc.prems(1) ys by simp
    then have d: "distinct rest" and nin: "ys ! k \<notin> set rest"
      by (simp_all add: rest_def)
    have "set ys = set (take k ys @ ys ! k # drop (Suc k) ys)" using ys by simp
    then have s: "set ys = insert (ys ! k) (set rest)" by (simp add: rest_def)
    have "length rest \<le> n" using Suc.prems(2) k by (simp add: rest_def)
    then have ih: "distinct (list_in_order pick n rest) \<and> set (list_in_order pick n rest) = set rest"
      using d by (rule Suc.IH[rotated])
    have "list_in_order pick (Suc n) ys = ys ! k # list_in_order pick n rest"
      using False by (simp add: k_def rest_def Let_def)
    then show ?thesis using ih nin s by simp
  qed
qed

lemma list_of_set_distinct:
  "distinct (list_of_set pick xs) \<and> set (list_of_set pick xs) = set xs"
  using list_in_order_distinct[of "remdups xs" "length (remdups xs)" pick]
  by (simp add: list_of_set_def)

lemma embedded_texts_subset:
  "(\<lambda>(i, chunk, e). chunk) ` set (embedded reply n cs) \<subseteq> snd ` set cs"
proof (induction cs arbitrary: n)
  case Nil
  then show ?case by simp
next
  case (Cons c cs)
  obtain i chunk where c: "c = (i, chunk)" by (cases c)
  have "(\<lambda>(i, chunk, e). chunk) ` set (embedded reply (Suc n) cs) \<subseteq> snd ` set cs"
    by (rule Cons.IH)
  then show ?case unfolding c by (cases "reply n chunk") auto
qed

lemma embedded_texts_distinct:
  "distinct (map snd cs) \<Longrightarrow> distinct (map (\<lambda>(i, chunk, e). chunk) (embedded reply n cs))"
proof (induction cs arbitrary: n)
  case Nil
  then show ?case by simp
next
  case (Cons c cs)
  obtain i chunk where c: "c = (i, chunk)" by (cases c)
  have "chunk \<notin> snd ` set cs" using Cons.prems c by auto
  then have nin: "chunk \<notin> (\<lambda>(i, chunk, e). chunk) ` set (embedded reply (Suc n) cs)"
    using embedded_texts_subset[of reply "Suc n" cs] by blast
  have ih: "distinct (map (\<lambda>(i, chunk, e). chunk) (embedded reply (Suc n) cs))"
    using Cons.prems by (simp add: Cons.IH)
  show ?case unfolding c using nin ih by (cases "reply n chunk") simp_all
qed

text \<open>
  The script removes duplicates before it uploads: whatever the files hold and whatever
  the services answer, no two points \<open>main\<close> sends have the same text.
\<close>

lemma upload_chunks_to_qdrant_distinct_texts:
  assumes "distinct chunks"
  shows "distinct (map payload_text (concat (new_batches w (upload_chunks_to_qdrant chunks b w))))"
proof -
  have "map snd (enumerate_from0 chunks) = chunks" by (simp add: enumerate_from0_def)
  then have "distinct (map (\<lambda>(i, chunk, e). chunk) (embedded_chunks chunks w))"
    using assms by (simp add: embedded_chunks_def embedded_texts_distinct)
  then show ?thesis
    using upload_chunks_to_qdrant_sent[of w chunks b]
    by (simp add: run_points_def points_from_texts)
qed

lemma main_sends_distinct_texts:
  "distinct (map payload_text (concat (new_batches w (main pick str_of fs w))))"
proof -
  obtain created w1 where c: "cli_create_collection w = (created, w1)"
    by (cases "cli_create_collection w")
  have l1: "upsert_log w1 = upsert_log w"
    using c by (auto simp: cli_create_collection_def split: if_splits)
  define all_chunks where "all_chunks =
    concat (map (\<lambda>file_path.
      if path_exists fs file_path then load_text_chunks str_of fs file_path else [])
      chunk_files)"
  define w2 where "w2 = upload_chunks_to_qdrant (list_of_set pick all_chunks) 50 w1"
  have l3: "upsert_log (snd (embed t w2)) = upsert_log w2" for t
    by (simp add: embed_def)
  have m: "main pick str_of fs w = w1 \<or> upsert_log (main pick str_of fs w) = upsert_log w2"
    using c l3 by (simp add: main_def Let_def all_chunks_def[symmetric] w2_def[symmetric])
  show ?thesis
  proof (cases "main pick str_of fs w = w1")
    case True
    then show ?thesis using l1 by (simp add: new_batches_def)
  next
    case False
    then have "upsert_log (main pick str_of fs w) = upsert_log w2" using m by blast
    then have "new_batches w (main pick str_of fs w) = new_batches w1 w2"
      using l1 by (simp add: new_batches_def)
    then show ?thesis
      unfolding w2_def
      using upload_chunks_to_qdrant_distinct_texts[of "list_of_set pick all_chunks" w1 50]
        list_of_set_distinct[of pick all_chunks]
      by simp
  qed
qed

end
